theory Spec2Isabelle
  imports Complex_Main "HOL-Library.Word"
begin


section \<open>Machine integers\<close>

text \<open>
  The Go sources compute on \<^verbatim>\<open>int64\<close> values (object sizes, byte offsets, byte
  counts, durations in nanoseconds).  Go defines signed overflow as wrap-around in two's
  complement, so every \<^verbatim>\<open>int64\<close> addition and subtraction of the sources is
  modelled on \<^typ>\<open>int\<close> with the wrap-around written out by \<open>wrap64\<close>.
  Slice indices and lengths (Go \<^verbatim>\<open>int\<close>) never reach the limits of the type,
  because a slice cannot hold that many elements; they are plain \<^typ>\<open>int\<close> or
  \<^typ>\<open>nat\<close> values.
\<close>

definition wrap64 :: "int \<Rightarrow> int" where
  "wrap64 x = (x + 2 ^ 63) mod 2 ^ 64 - 2 ^ 63"

section \<open>Range planner\<close>

text \<open>
  \<^verbatim>\<open>ChunkSpec\<close> describes one byte-range segment of the object:
  \<^verbatim>\<open>Index int; RangeStart int64; RangeEnd int64 (inclusive); Size int64\<close>.
\<close>

record ChunkSpec =
  Index :: int
  RangeStart :: int
  RangeEnd :: int
  Size :: int

text \<open>
  The loop of \<^verbatim>\<open>planChunks\<close>:
  \<^verbatim>\<open>for offset := int64(0); offset < objectSize; offset += chunkSize { ... }\<close>
  with the loop state (offset, index, chunks) as arguments.  Nothing in the loop bounds
  the number of iterations, so the model is a partial function: \<open>None\<close> stands
  for a call that never returns.
\<close>

partial_function (option) planLoop ::
  "int \<Rightarrow> int \<Rightarrow> int \<Rightarrow> int \<Rightarrow> ChunkSpec list \<Rightarrow> ChunkSpec list option" where
  "planLoop objectSize chunkSize offset index chunks =
     (if offset < objectSize then
        let e = wrap64 (wrap64 (offset + chunkSize) - 1);
            rend = (if e \<ge> objectSize then wrap64 (objectSize - 1) else e);
            c = \<lparr>Index = index, RangeStart = offset, RangeEnd = rend,
                 Size = wrap64 (wrap64 (rend - offset) + 1)\<rparr>
        in planLoop objectSize chunkSize (wrap64 (offset + chunkSize)) (index + 1) (chunks @ [c])
      else Some chunks)"

declare planLoop.simps[code]

definition planChunks :: "int \<Rightarrow> int \<Rightarrow> ChunkSpec list option" where
  "planChunks objectSize chunkSize = planLoop objectSize chunkSize 0 0 []"

text \<open>
  The number of chunks of an ideal plan, \<open>\<lceil>objectSize / chunkSize\<rceil>\<close>, and the
  \<open>i\<close>-th descriptor of that plan.  Both are used to state what \<open>planChunks\<close>
  returns; neither is part of the sources.
\<close>

definition chunkCount :: "int \<Rightarrow> int \<Rightarrow> nat" where
  "chunkCount objectSize chunkSize = nat ((objectSize + chunkSize - 1) div chunkSize)"

definition idealChunk :: "int \<Rightarrow> int \<Rightarrow> nat \<Rightarrow> ChunkSpec" where
  "idealChunk objectSize chunkSize i =
     \<lparr>Index = int i, RangeStart = int i * chunkSize,
      RangeEnd = min (int i * chunkSize + chunkSize) objectSize - 1,
      Size = min (int i * chunkSize + chunkSize) objectSize - int i * chunkSize\<rparr>"

section \<open>Fetch operation\<close>

subsection \<open>Errors, panics and the response stream\<close>

text \<open>
  Go \<^verbatim>\<open>error\<close> values.  \<open>EOF\<close> and \<open>ErrUnexpectedEOF\<close> are the two sentinels of
  package \<^verbatim>\<open>io\<close>; \<open>Transport\<close> is any other error of the SDK or of the connection.
  The three remaining constructors are the wrappers that \<^verbatim>\<open>downloadChunk\<close> builds with
  \<^verbatim>\<open>fmt.Errorf("... %w", err)\<close>: \<open>GetObjectChunk index start end err\<close> for
  \<^verbatim>\<open>"GetObject chunk %d (range %s): %w"\<close> (the range header \<^verbatim>\<open>bytes=start-end\<close> is kept
  as its two numbers), \<open>ReadingChunkBody index err\<close> for \<^verbatim>\<open>"reading chunk %d body: %w"\<close>
  and \<open>DrainingChunkBody index err\<close> for \<^verbatim>\<open>"draining chunk %d body: %w"\<close>.
\<close>

datatype go_error =
    EOF
  | ErrUnexpectedEOF
  | Transport string
  | GetObjectChunk int int int go_error
  | ReadingChunkBody int go_error
  | DrainingChunkBody int go_error

text \<open>
  Run-time failures of the fetch path, each of which ends the program: the panic of
  \<^verbatim>\<open>make([]byte, n)\<close> for a length out of range (negative, or above the bound that
  the runtime puts on one allocation), the fatal error of an allocation that the
  system cannot serve, and the panic of an index outside a slice.
\<close>

datatype go_panic = MakeSliceLenOutOfRange | OutOfMemory | IndexOutOfRange

type_synonym byte = "8 word"

text \<open>
  The body of a response, as a reader: it delivers the bytes of \<open>content\<close> and then
  ends with \<open>ending\<close>, which is \<open>EOF\<close> for a clean end of stream and any other error
  when the transfer fails.
\<close>

record body =
  content :: "byte list"
  ending :: go_error

text \<open>
  \<^verbatim>\<open>io.ReadFull(r, buf)\<close> of the Go standard library, for a buffer of \<open>len\<close> bytes:
  it reads until the buffer is full and then returns no error; when the stream ends
  first it returns the bytes read with the error of the stream, where a clean end after
  at least one byte is reported as \<open>ErrUnexpectedEOF\<close> and a clean end before the first
  byte as \<open>EOF\<close>.  The result is the filled prefix of the buffer and the error.
\<close>

definition ReadFull :: "body \<Rightarrow> nat \<Rightarrow> byte list \<times> go_error option" where
  "ReadFull r len =
     (if len \<le> length (content r) then (take len (content r), None)
      else (content r,
            Some (if ending r = EOF \<and> content r \<noteq> [] then ErrUnexpectedEOF else ending r)))"

text \<open>
  \<^verbatim>\<open>io.Copy(io.Discard, r)\<close>: it reads the stream to its end and returns the number of
  bytes read; a clean end of stream is not an error.
\<close>

definition CopyDiscard :: "body \<Rightarrow> int \<times> go_error option" where
  "CopyDiscard r =
     (int (length (content r)), if ending r = EOF then None else Some (ending r))"

text \<open>
  \<^verbatim>\<open>countingReader\<close> adds the number of bytes of every read to the shared
  \<^verbatim>\<open>atomic.Int64\<close>; \<open>None\<close> is the \<^verbatim>\<open>nil\<close> pointer, for which the body is not wrapped.
\<close>

definition countingReader :: "int option \<Rightarrow> nat \<Rightarrow> int option" where
  "countingReader progress n = map_option (\<lambda>v. wrap64 (v + int n)) progress"

subsection \<open>One ranged read\<close>

text \<open>
  \<^verbatim>\<open>ChunkResult\<close> holds the timing and outcome of one chunk download.  Times are
  nanosecond counts; \<open>Err = None\<close> is the \<^verbatim>\<open>nil\<close> error.  The fields \<^verbatim>\<open>Index\<close> and
  \<^verbatim>\<open>Size\<close> carry the suffix \<open>_res\<close> because \<open>ChunkSpec\<close> has fields of the same name.
\<close>

record ChunkResult =
  Index_res :: int
  Size_res :: int
  StartTime :: int
  TTFB :: int
  ElapsedTotal :: int
  Err :: "go_error option"

text \<open>
  What the outside world contributes to one call of \<^verbatim>\<open>downloadChunk\<close>: the result of
  \<^verbatim>\<open>client.GetObject\<close> (an error, or a response with its body), the reading of the clock
  at \<^verbatim>\<open>time.Now()\<close>, the two readings of \<^verbatim>\<open>time.Since(start)\<close>, after the headers
  and after the body, and the two limits of the allocator: \<open>maxAlloc\<close>, the bound of
  the runtime on the size of one allocation (a constant of the platform), and
  \<open>heapFree\<close>, the number of bytes that the system can still provide when the buffer
  is made.
\<close>

record fetch =
  getObject :: "go_error + body"
  clockStart :: int
  sinceHeaders :: int
  sinceBody :: int
  maxAlloc :: int
  heapFree :: int

text \<open>
  \<^verbatim>\<open>make([]byte, n)\<close> for an \<^verbatim>\<open>int64\<close> length \<open>n\<close>: \<open>None\<close> when the slice is made,
  and the failure otherwise.
\<close>

definition makeBytes :: "fetch \<Rightarrow> int \<Rightarrow> go_panic option" where
  "makeBytes world n =
     (if n < 0 \<or> maxAlloc world < n then Some MakeSliceLenOutOfRange
      else if heapFree world < n then Some OutOfMemory
      else None)"

text \<open>
  \<^verbatim>\<open>downloadChunk\<close>.  \<open>outBufs = None\<close> is the \<^verbatim>\<open>nil\<close> slice of discard mode.  The
  function returns the \<open>ChunkResult\<close> together with the output buffers and the progress
  counter as it leaves them, or the panic it raises.
\<close>

definition downloadChunk ::
  "fetch \<Rightarrow> ChunkSpec \<Rightarrow> byte list list option \<Rightarrow> int option \<Rightarrow>
     go_panic + (ChunkResult \<times> byte list list option \<times> int option)" where
  "downloadChunk world chunk outBufs progress =
     (case getObject world of
        Inl err \<Rightarrow>
          Inr (\<lparr>Index_res = Index chunk, Size_res = 0, StartTime = clockStart world,
                 TTFB = 0, ElapsedTotal = 0,
                 Err = Some (GetObjectChunk (Index chunk) (RangeStart chunk) (RangeEnd chunk) err)\<rparr>,
               outBufs, progress)
      | Inr resp \<Rightarrow>
          (case outBufs of
             Some bufs \<Rightarrow>
               (case makeBytes world (Size chunk) of
                  Some p \<Rightarrow> Inl p
                | None \<Rightarrow>
                 (case ReadFull resp (nat (Size chunk)) of
                    (buf, err) \<Rightarrow>
                      (case (case err of None \<Rightarrow> None
                                  | Some e \<Rightarrow> if e \<noteq> ErrUnexpectedEOF then Some e else None) of
                         Some e \<Rightarrow>
                           Inr (\<lparr>Index_res = Index chunk, Size_res = 0,
                                  StartTime = clockStart world, TTFB = sinceHeaders world,
                                  ElapsedTotal = 0,
                                  Err = Some (ReadingChunkBody (Index chunk) e)\<rparr>,
                                outBufs, countingReader progress (length buf))
                       | None \<Rightarrow>
                           if Index chunk < 0 \<or> int (length bufs) \<le> Index chunk
                           then Inl IndexOutOfRange
                           else
                             Inr (\<lparr>Index_res = Index chunk, Size_res = int (length buf),
                                    StartTime = clockStart world, TTFB = sinceHeaders world,
                                    ElapsedTotal = sinceBody world, Err = None\<rparr>,
                                  Some (bufs[nat (Index chunk) := buf]),
                                  countingReader progress (length buf)))))
           | None \<Rightarrow>
               (case CopyDiscard resp of
                  (n, err) \<Rightarrow>
                    (case err of
                       Some e \<Rightarrow>
                         Inr (\<lparr>Index_res = Index chunk, Size_res = 0,
                                StartTime = clockStart world, TTFB = sinceHeaders world,
                                ElapsedTotal = 0,
                                Err = Some (DrainingChunkBody (Index chunk) e)\<rparr>,
                              None, countingReader progress (nat n))
                     | None \<Rightarrow>
                         Inr (\<lparr>Index_res = Index chunk, Size_res = n,
                                StartTime = clockStart world, TTFB = sinceHeaders world,
                                ElapsedTotal = sinceBody world, Err = None\<rparr>,
                              None, countingReader progress (nat n))))))"

section \<open>Download dispatcher\<close>

text \<open>
  \<^verbatim>\<open>DownloadResult\<close> aggregates all chunk results of one run.  Its field \<^verbatim>\<open>TTFB\<close> is
  named \<open>TTFB_first\<close> here, \<open>ChunkResult\<close> having a field \<open>TTFB\<close> already.
\<close>

record DownloadResult =
  Chunks :: "ChunkResult list"
  TotalTime :: int
  TTFB_first :: int

text \<open>The zero values \<^verbatim>\<open>ChunkResult{}\<close> and \<^verbatim>\<open>DownloadResult{}\<close>.\<close>

definition zeroChunkResult :: ChunkResult where
  "zeroChunkResult =
     \<lparr>Index_res = 0, Size_res = 0, StartTime = 0, TTFB = 0, ElapsedTotal = 0, Err = None\<rparr>"

definition zeroDownloadResult :: DownloadResult where
  "zeroDownloadResult = \<lparr>Chunks = [], TotalTime = 0, TTFB_first = 0\<rparr>"

text \<open>
  \<^verbatim>\<open>workers := concurrency; if workers > len(chunks) { workers = len(chunks) }\<close>
\<close>

definition workerCount :: "int \<Rightarrow> nat \<Rightarrow> int" where
  "workerCount concurrency n = (if concurrency > int n then int n else concurrency)"

text \<open>
  The state that the goroutines of one call of \<^verbatim>\<open>downloadObject\<close> share:
  \<^item> \<open>jobs\<close>: the content of the buffered, closed channel;
  \<^item> \<open>receiving\<close>: the number of goroutines at the head of \<^verbatim>\<open>for chunk := range jobs\<close>;
  \<^item> \<open>fetching\<close>: the chunks held by the goroutines that are inside \<^verbatim>\<open>downloadChunk\<close>;
  \<^item> \<open>results\<close>, \<open>firstTTFB\<close>, \<open>ttfbSet\<close>: the variables of the same names;
  \<^item> \<open>sharedBufs\<close>, \<open>counter\<close>: the output buffers and the progress counter of the caller.
  A goroutine that has left its loop is counted nowhere.
\<close>

record pool =
  jobs :: "ChunkSpec list"
  receiving :: nat
  fetching :: "ChunkSpec list"
  results :: "ChunkResult list"
  firstTTFB :: int
  ttfbSet :: bool
  sharedBufs :: "byte list list option"
  counter :: "int option"

datatype exec = Running pool | Panicked go_panic

text \<open>
  The state when \<^verbatim>\<open>wg.Wait()\<close> is reached: all chunks are in the channel, the result
  table has one zero entry per chunk, and \<^verbatim>\<open>workers\<close> goroutines have been started
  (none when \<^verbatim>\<open>workers\<close> is not positive).
\<close>

definition startPool ::
  "ChunkSpec list \<Rightarrow> byte list list option \<Rightarrow> int option \<Rightarrow> int \<Rightarrow> pool" where
  "startPool chunks outBufs progress concurrency =
     \<lparr>jobs = chunks, receiving = nat (workerCount concurrency (length chunks)),
      fetching = [], results = replicate (length chunks) zeroChunkResult,
      firstTTFB = 0, ttfbSet = False, sharedBufs = outBufs, counter = progress\<rparr>"

text \<open>
  What a goroutine does with the result of \<^verbatim>\<open>downloadChunk\<close>: the index-keyed write
  \<^verbatim>\<open>results[chunk.Index] = res\<close>, which panics outside the table, and for a result
  without error the update of \<open>firstTTFB\<close> under the mutex, which only the first
  goroutine to arrive performs.
\<close>

definition recordResult :: "ChunkSpec \<Rightarrow> ChunkResult \<Rightarrow> pool \<Rightarrow> go_panic + pool" where
  "recordResult chunk res s =
     (if Index chunk < 0 \<or> int (length (results s)) \<le> Index chunk then Inl IndexOutOfRange
      else Inr (s\<lparr>results := (results s)[nat (Index chunk) := res],
                  firstTTFB := (if Err res = None \<and> \<not> ttfbSet s then TTFB res else firstTTFB s),
                  ttfbSet := (ttfbSet s \<or> Err res = None)\<rparr>))"

text \<open>
  One step of one goroutine.  \<open>world\<close> gives, for every chunk, what the outside world
  contributes to its fetch.  The goroutines interleave at the granularity of these
  steps: a fetch and the recording of its result form one step, which is exact as long
  as no two chunks share an index (the writes of different goroutines then commute).
  A panic in a goroutine ends the program.
\<close>

inductive step :: "(ChunkSpec \<Rightarrow> fetch) \<Rightarrow> exec \<Rightarrow> exec \<Rightarrow> bool"
  for world :: "ChunkSpec \<Rightarrow> fetch" where
  receive:
    "receiving s > 0 \<Longrightarrow> jobs s = chunk # rest \<Longrightarrow>
     step world (Running s)
       (Running (s\<lparr>jobs := rest, receiving := receiving s - 1, fetching := chunk # fetching s\<rparr>))"
| leave:
    "receiving s > 0 \<Longrightarrow> jobs s = [] \<Longrightarrow>
     step world (Running s) (Running (s\<lparr>receiving := receiving s - 1\<rparr>))"
| fetched:
    "chunk \<in> set (fetching s) \<Longrightarrow>
     downloadChunk (world chunk) chunk (sharedBufs s) (counter s) = Inr (res, outBufs, progress) \<Longrightarrow>
     recordResult chunk res (s\<lparr>sharedBufs := outBufs, counter := progress\<rparr>) = Inr s' \<Longrightarrow>
     step world (Running s)
       (Running (s'\<lparr>fetching := remove1 chunk (fetching s), receiving := receiving s + 1\<rparr>))"
| fetch_panic:
    "chunk \<in> set (fetching s) \<Longrightarrow>
     downloadChunk (world chunk) chunk (sharedBufs s) (counter s) = Inl p \<Longrightarrow>
     step world (Running s) (Panicked p)"
| record_panic:
    "chunk \<in> set (fetching s) \<Longrightarrow>
     downloadChunk (world chunk) chunk (sharedBufs s) (counter s) = Inr (res, outBufs, progress) \<Longrightarrow>
     recordResult chunk res (s\<lparr>sharedBufs := outBufs, counter := progress\<rparr>) = Inl p \<Longrightarrow>
     step world (Running s) (Panicked p)"

text \<open>Any number of steps, in any interleaving.\<close>

inductive steps :: "(ChunkSpec \<Rightarrow> fetch) \<Rightarrow> exec \<Rightarrow> exec \<Rightarrow> bool"
  for world :: "ChunkSpec \<Rightarrow> fetch" where
  none: "steps world e e"
| more: "steps world e e' \<Longrightarrow> step world e' e'' \<Longrightarrow> steps world e e''"

text \<open>
  The end of \<^verbatim>\<open>downloadObject\<close>, after \<^verbatim>\<open>wg.Wait()\<close>: the scan of the result table in
  index order for the first error, and the value returned.
\<close>

fun firstError :: "ChunkResult list \<Rightarrow> go_error option" where
  "firstError [] = None"
| "firstError (r # rs) = (case Err r of Some e \<Rightarrow> Some e | None \<Rightarrow> firstError rs)"

definition collect :: "ChunkResult list \<Rightarrow> int \<Rightarrow> int \<Rightarrow> DownloadResult \<times> go_error option" where
  "collect table totalTime ttfb =
     (case firstError table of
        Some e \<Rightarrow> (zeroDownloadResult, Some e)
      | None \<Rightarrow> (\<lparr>Chunks = table, TotalTime = totalTime, TTFB_first = ttfb\<rparr>, None))"

text \<open>
  \<^verbatim>\<open>downloadObject\<close> as a relation between its arguments and what a call can return:
  \<^verbatim>\<open>wg.Wait()\<close> returns once every goroutine has left its loop, that is in a state
  where no goroutine is receiving or fetching.  \<open>totalTime\<close> is the reading of
  \<^verbatim>\<open>time.Since(overallStart)\<close>.  Besides the two results of the Go function, the
  relation gives the output buffers and the progress counter as the call leaves them.
\<close>

inductive downloadObject ::
  "(ChunkSpec \<Rightarrow> fetch) \<Rightarrow> int \<Rightarrow> ChunkSpec list \<Rightarrow> byte list list option \<Rightarrow> int option \<Rightarrow> int \<Rightarrow>
     (DownloadResult \<times> go_error option) \<times> byte list list option \<times> int option \<Rightarrow> bool" where
  returns:
    "steps world (Running (startPool chunks outBufs progress concurrency)) (Running s) \<Longrightarrow>
     receiving s = 0 \<Longrightarrow> fetching s = [] \<Longrightarrow>
     downloadObject world totalTime chunks outBufs progress concurrency
       (collect (results s) totalTime (firstTTFB s), sharedBufs s, counter s)"

text \<open>
  Predicates for stating what a call leaves behind.  \<open>slot outBufs i\<close> is the buffer at
  position \<open>i\<close> of the output buffers, if there is one.
  \<open>fetchedInto world outBufs progress chunk res buf\<close>: the call of \<open>downloadChunk\<close> for
  \<open>chunk\<close>, on the output buffers and the counter that the dispatch was given, returns
  the outcome \<open>res\<close> and leaves \<open>buf\<close> in the slot of the chunk.  \<open>fetchedAs\<close> is the
  same for the outcome alone.  Since \<open>downloadChunk\<close> is a function, \<open>res\<close> and \<open>buf\<close>
  are determined by the other arguments.
\<close>

definition slot :: "byte list list option \<Rightarrow> nat \<Rightarrow> byte list option" where
  "slot outBufs i =
     (case outBufs of
        None \<Rightarrow> None
      | Some bufs \<Rightarrow> if i < length bufs then Some (bufs ! i) else None)"

definition fetchedInto ::
  "(ChunkSpec \<Rightarrow> fetch) \<Rightarrow> byte list list option \<Rightarrow> int option \<Rightarrow> ChunkSpec \<Rightarrow>
     ChunkResult \<Rightarrow> byte list option \<Rightarrow> bool" where
  "fetchedInto world outBufs progress chunk res buf =
     (\<exists>outBufs' progress'.
        downloadChunk (world chunk) chunk outBufs progress = Inr (res, outBufs', progress') \<and>
        slot outBufs' (nat (Index chunk)) = buf)"

definition fetchedAs ::
  "(ChunkSpec \<Rightarrow> fetch) \<Rightarrow> byte list list option \<Rightarrow> int option \<Rightarrow> ChunkSpec \<Rightarrow>
     ChunkResult \<Rightarrow> bool" where
  "fetchedAs world outBufs progress chunk res =
     (\<exists>outBufs' progress'.
        downloadChunk (world chunk) chunk outBufs progress = Inr (res, outBufs', progress'))"

text \<open>
  \<open>poolInv\<close>: the invariant of the worker pool for a list of chunks whose indices are
  their positions.  The channel holds the chunks from some position \<open>k\<close> on; a chunk
  before \<open>k\<close> is either being fetched, or its outcome is in the table at its index and
  its slot of the output buffers is as its fetch left it; every other slot is as the
  caller passed it; and no goroutine has left its loop while the channel was not empty.
\<close>

definition poolInv ::
  "(ChunkSpec \<Rightarrow> fetch) \<Rightarrow> ChunkSpec list \<Rightarrow> byte list list option \<Rightarrow> int option \<Rightarrow> int \<Rightarrow>
     pool \<Rightarrow> bool" where
  "poolInv world chunks outBufs progress concurrency s =
     (length (results s) = length chunks \<and>
      distinct (fetching s) \<and>
      receiving s + length (fetching s) \<le> nat (workerCount concurrency (length chunks)) \<and>
      (jobs s \<noteq> [] \<longrightarrow>
         receiving s + length (fetching s) = nat (workerCount concurrency (length chunks))) \<and>
      map_option length (sharedBufs s) = map_option length outBufs \<and>
      (\<exists>k\<le>length chunks.
         jobs s = drop k chunks \<and>
         set (fetching s) \<subseteq> set (take k chunks) \<and>
         (\<forall>i<k. chunks ! i \<notin> set (fetching s) \<longrightarrow>
            fetchedInto world outBufs progress (chunks ! i) (results s ! i)
              (slot (sharedBufs s) i)) \<and>
         (\<forall>i. (i < k \<longrightarrow> chunks ! i \<in> set (fetching s)) \<longrightarrow>
            slot (sharedBufs s) i = slot outBufs i)))"

text \<open>
  A bound on the number of steps that a state of the pool still admits, and the states
  in which \<^verbatim>\<open>wg.Wait()\<close> returns or the program has ended.
\<close>

fun remaining :: "exec \<Rightarrow> nat" where
  "remaining (Running s) = 3 * length (jobs s) + 2 * length (fetching s) + receiving s + 1"
| "remaining (Panicked p) = 0"

fun finished :: "exec \<Rightarrow> bool" where
  "finished (Running s) = (receiving s = 0 \<and> fetching s = [])"
| "finished (Panicked p) = True"

section \<open>Floating point\<close>

text \<open>
  The statistics are computed on \<^verbatim>\<open>float64\<close> values.  A finite \<^verbatim>\<open>float64\<close> is a
  rational number, and it is modelled by that number, as a \<^typ>\<open>real\<close>; comparisons are then exact.
  An arithmetic operation of IEEE 754 binary64 returns the exact result rounded to
  53 significant bits, to nearest, ties to even: \<open>round64\<close>.  The exponent is not
  bounded in the model, so the model is that of binary64 as long as no result overflows
  or falls into the subnormal range, which holds for all magnitudes that byte counts,
  nanosecond counts and their quotients can take.  No operation of the sources yields a
  NaN or an infinity: every division is guarded against a zero divisor.
\<close>

text \<open>Rounding to the nearest integer, ties to even.\<close>

definition rne :: "real \<Rightarrow> int" where
  "rne x =
     (let f = \<lfloor>x\<rfloor>; d = x - of_int f
      in if d < 1 / 2 then f else if 1 / 2 < d then f + 1 else if even f then f else f + 1)"

text \<open>The number of binary digits of a natural number.\<close>

fun bitLength :: "nat \<Rightarrow> nat" where
  "bitLength n = (if n = 0 then 0 else Suc (bitLength (n div 2)))"

declare bitLength.simps [simp del]

text \<open>\<open>ilog2 x\<close> is the exponent \<open>e\<close> with \<open>2\<^sup>e \<le> |x| < 2\<^sup>e\<^sup>+\<^sup>1\<close>, for \<open>x \<noteq> 0\<close>.\<close>

definition ilog2 :: "real \<Rightarrow> int" where
  "ilog2 x =
     (if 1 \<le> \<bar>x\<bar> then int (bitLength (nat \<lfloor>\<bar>x\<bar>\<rfloor>)) - 1
      else - int (bitLength (nat (\<lceil>1 / \<bar>x\<bar>\<rceil> - 1))))"

definition round64 :: "real \<Rightarrow> real" where
  "round64 x =
     (if x = 0 then 0
      else let u = 2 powi (ilog2 x - 52) in of_int (rne (x / u)) * u)"

text \<open>
  The conversion \<^verbatim>\<open>float64(i)\<close> of an integer, the operations \<^verbatim>\<open>+\<close>, \<^verbatim>\<open>*\<close> and
  \<^verbatim>\<open>/\<close> on \<^verbatim>\<open>float64\<close>, \<^verbatim>\<open>math.Ceil\<close>, and the conversion of a \<^verbatim>\<open>float64\<close> to an
  integer type, which truncates towards zero.
\<close>

definition float64 :: "int \<Rightarrow> real" where
  "float64 i = round64 (of_int i)"

definition fadd :: "real \<Rightarrow> real \<Rightarrow> real" where
  "fadd a b = round64 (a + b)"

definition fmul :: "real \<Rightarrow> real \<Rightarrow> real" where
  "fmul a b = round64 (a * b)"

definition fdiv :: "real \<Rightarrow> real \<Rightarrow> real" where
  "fdiv a b = round64 (a / b)"

definition Ceil :: "real \<Rightarrow> real" where
  "Ceil x = of_int \<lceil>x\<rceil>"

definition toInt :: "real \<Rightarrow> int" where
  "toInt x = (if 0 \<le> x then \<lfloor>x\<rfloor> else \<lceil>x\<rceil>)"

text \<open>
  Integer division and remainder of Go, which truncate towards zero, and
  \<^verbatim>\<open>Duration.Seconds\<close> of package \<^verbatim>\<open>time\<close>:
  \<^verbatim>\<open>sec := d / Second; nsec := d % Second; return float64(sec) + float64(nsec)/1e9\<close>.
\<close>

definition quo :: "int \<Rightarrow> int \<Rightarrow> int" where
  "quo a b = sgn a * sgn b * (\<bar>a\<bar> div \<bar>b\<bar>)"

definition rem :: "int \<Rightarrow> int \<Rightarrow> int" where
  "rem a b = a - b * quo a b"

definition Seconds :: "int \<Rightarrow> real" where
  "Seconds d =
     fadd (float64 (quo d 1000000000)) (fdiv (float64 (rem d 1000000000)) 1000000000)"

section \<open>Statistics\<close>

text \<open>
  The configuration parsed from the command line (\<^verbatim>\<open>Config\<close>); of these fields the
  statistics read \<^verbatim>\<open>ChunkSize\<close> only, under the name \<open>ChunkSize_cfg\<close> here.
\<close>

record Config =
  Endpoint :: string
  Bucket :: string
  Key :: string
  Region :: string
  Profile :: string
  AccessKeyID :: string
  SecretAccessKey :: string
  ChunkSize_cfg :: int
  ConcurrencyList :: "int list"
  Runs_cfg :: int
  DiscardOutput :: bool
  OutputFile :: string
  JSONOutput :: bool

text \<open>
  \<^verbatim>\<open>LatencyStats\<close>, \<^verbatim>\<open>RunSummary\<close>, \<^verbatim>\<open>AggregateSummary\<close> and \<^verbatim>\<open>ConcurrencySweep\<close>.
  Durations are nanosecond counts (\<^verbatim>\<open>time.Duration\<close> is an \<^verbatim>\<open>int64\<close>), throughputs are
  \<^verbatim>\<open>float64\<close> values.  A field whose name is taken already carries a suffix.
\<close>

record LatencyStats =
  Min_lat :: int
  Max_lat :: int
  Mean_lat :: int
  P50 :: int
  P95 :: int
  P99 :: int

record RunSummary =
  RunNumber :: int
  ObjectSize :: int
  TotalBytes :: int
  ChunkCount :: int
  ChunkSize_run :: int
  Concurrency_run :: int
  TotalTime_run :: int
  TTFB_run :: int
  ThroughputMB :: real
  ThroughputGB :: real
  ChunkLatency :: LatencyStats

record AggregateSummary =
  Runs :: int
  MinThroughputMB :: real
  MaxThroughputMB :: real
  MeanThroughputMB :: real
  MinThroughputGB :: real
  MaxThroughputGB :: real
  MeanThroughputGB :: real

record ConcurrencySweep =
  Concurrency :: int
  Summaries :: "RunSummary list"
  Aggregate :: AggregateSummary

text \<open>The zero value \<^verbatim>\<open>RunSummary{}\<close>.\<close>

definition zeroRunSummary :: RunSummary where
  "zeroRunSummary =
     \<lparr>RunNumber = 0, ObjectSize = 0, TotalBytes = 0, ChunkCount = 0, ChunkSize_run = 0,
      Concurrency_run = 0, TotalTime_run = 0, TTFB_run = 0, ThroughputMB = 0, ThroughputGB = 0,
      ChunkLatency =
        \<lparr>Min_lat = 0, Max_lat = 0, Mean_lat = 0, P50 = 0, P95 = 0, P99 = 0\<rparr>\<rparr>"

subsection \<open>One run\<close>

text \<open>
  The closure \<^verbatim>\<open>percentile\<close> of \<^verbatim>\<open>computeStats\<close>, with the variables it captures as
  arguments: \<open>durations\<close> is the sorted slice and \<open>n\<close> its length.
\<close>

definition percentile :: "real list \<Rightarrow> nat \<Rightarrow> real \<Rightarrow> int" where
  "percentile durations n p =
     (if n = 0 then 0
      else
        let idx = toInt (Ceil (fmul (fdiv p 100) (float64 (int n)))) - 1;
            idx = (if idx < 0 then 0 else idx);
            idx = (if idx \<ge> int n then int n - 1 else idx)
        in toInt (durations ! nat idx))"

text \<open>
  \<^verbatim>\<open>computeStats\<close>.  The byte total is an \<^verbatim>\<open>int64\<close> sum; the durations are converted
  to \<^verbatim>\<open>float64\<close>, sorted by \<^verbatim>\<open>sort.Float64s\<close> and summed in sorted order.
\<close>

definition computeStats :: "DownloadResult \<Rightarrow> Config \<Rightarrow> int \<Rightarrow> int \<Rightarrow> int \<Rightarrow> RunSummary" where
  "computeStats result cfg objectSize runNumber concurrency =
     (let totalBytes = foldl (\<lambda>acc c. wrap64 (acc + Size_res c)) 0 (Chunks result);
          durations = sort (map (\<lambda>c. float64 (ElapsedTotal c)) (Chunks result));
          n = length durations;
          sumD = foldl fadd 0 durations;
          minD = (if n > 0 then toInt (durations ! 0) else 0);
          maxD = (if n > 0 then toInt (durations ! (n - 1)) else 0);
          meanD = (if n > 0 then toInt (fdiv sumD (float64 (int n))) else 0);
          elapsed = Seconds (TotalTime result);
          throughputMB =
            (if elapsed > 0 then fdiv (fdiv (float64 totalBytes) 1048576) elapsed else 0);
          throughputGB =
            (if elapsed > 0 then fdiv (fdiv (float64 totalBytes) 1073741824) elapsed else 0)
      in \<lparr>RunNumber = runNumber, ObjectSize = objectSize, TotalBytes = totalBytes,
          ChunkCount = int (length (Chunks result)), ChunkSize_run = ChunkSize_cfg cfg,
          Concurrency_run = concurrency, TotalTime_run = TotalTime result,
          TTFB_run = TTFB_first result,
          ThroughputMB = throughputMB, ThroughputGB = throughputGB,
          ChunkLatency =
            \<lparr>Min_lat = minD, Max_lat = maxD, Mean_lat = meanD,
             P50 = percentile durations n 50, P95 = percentile durations n 95,
             P99 = percentile durations n 99\<rparr>\<rparr>)"

subsection \<open>Several runs, several concurrency levels\<close>

text \<open>\<^verbatim>\<open>computeAggregate\<close>: one pass over the summaries for minimum, maximum and sum.\<close>

definition zeroAggregateSummary :: AggregateSummary where
  "zeroAggregateSummary =
     \<lparr>Runs = 0, MinThroughputMB = 0, MaxThroughputMB = 0, MeanThroughputMB = 0,
      MinThroughputGB = 0, MaxThroughputGB = 0, MeanThroughputGB = 0\<rparr>"

definition computeAggregate :: "RunSummary list \<Rightarrow> AggregateSummary" where
  "computeAggregate summaries =
     (case summaries of
        [] \<Rightarrow> zeroAggregateSummary
      | first # _ \<Rightarrow>
          (case foldl (\<lambda>(minMB, maxMB, sumMB) s.
                         (if ThroughputMB s < minMB then ThroughputMB s else minMB,
                          if ThroughputMB s > maxMB then ThroughputMB s else maxMB,
                          fadd sumMB (ThroughputMB s)))
                      (ThroughputMB first, ThroughputMB first, 0) summaries of
             (minMB, maxMB, sumMB) \<Rightarrow>
               let meanMB = fdiv sumMB (float64 (int (length summaries)))
               in \<lparr>Runs = int (length summaries),
                   MinThroughputMB = minMB, MaxThroughputMB = maxMB, MeanThroughputMB = meanMB,
                   MinThroughputGB = fdiv minMB 1024, MaxThroughputGB = fdiv maxMB 1024,
                   MeanThroughputGB = fdiv meanMB 1024\<rparr>))"

text \<open>
  The selection loop at the head of \<^verbatim>\<open>printComparisonReport\<close>:
  \<^verbatim>\<open>bestMean := 0.0; bestIdx := 0; for i, sw := range sweeps { if sw.Aggregate.MeanThroughputMB > bestMean { bestMean = ...; bestIdx = i } }\<close>.
  \<open>bestSweepFrom\<close> is the loop from position \<open>i\<close> on, \<open>bestSweep\<close> the pair
  \<open>(bestMean, bestIdx)\<close> it ends with.
\<close>

fun bestSweepFrom :: "nat \<Rightarrow> real \<times> nat \<Rightarrow> ConcurrencySweep list \<Rightarrow> real \<times> nat" where
  "bestSweepFrom i best [] = best"
| "bestSweepFrom i (bestMean, bestIdx) (sw # sweeps) =
     bestSweepFrom (Suc i)
       (if MeanThroughputMB (Aggregate sw) > bestMean
        then (MeanThroughputMB (Aggregate sw), i) else (bestMean, bestIdx))
       sweeps"

definition bestSweep :: "ConcurrencySweep list \<Rightarrow> real \<times> nat" where
  "bestSweep sweeps = bestSweepFrom 0 (0, 0) sweeps"

subsection \<open>One run of the main loop\<close>

text \<open>
  The body of the loop over the runs in \<^verbatim>\<open>main\<close>, from the return of
  \<^verbatim>\<open>downloadObject\<close> to the summary:
  \<^verbatim>\<open>if err != nil { log.Fatalf("concurrency=%d run %d failed: %v", conc, run, err) }\<close>
  ends the program; otherwise \<^verbatim>\<open>computeStats\<close> builds the summary of the run.
\<close>

datatype fatal = RunFailed int int go_error

definition summarizeRun ::
  "Config \<Rightarrow> int \<Rightarrow> int \<Rightarrow> int \<Rightarrow> DownloadResult \<times> go_error option \<Rightarrow> fatal + RunSummary" where
  "summarizeRun cfg objectSize run conc returned =
     (case returned of
        (result, Some err) \<Rightarrow> Inl (RunFailed conc run err)
      | (result, None) \<Rightarrow> Inr (computeStats result cfg objectSize run conc))"

section \<open>Properties of the range planner\<close>

lemma wrap64_id: "- (2 ^ 63) \<le> x \<Longrightarrow> x < 2 ^ 63 \<Longrightarrow> wrap64 x = x"
  by (simp add: wrap64_def)

lemma chunkCount_upper:
  assumes "0 < c" "0 \<le> S"
  shows "S \<le> int (chunkCount S c) * c"
proof -
  have nn: "0 \<le> (S + c - 1) div c" using assms by (simp add: pos_imp_zdiv_nonneg_iff)
  have "(S + c - 1) mod c < c" using assms by simp
  moreover have "(S + c - 1) div c * c + (S + c - 1) mod c = S + c - 1" by simp
  ultimately have "S + c - 1 < (S + c - 1) div c * c + c" by linarith
  then show ?thesis using nn by (simp add: chunkCount_def)
qed

lemma chunkCount_lower:
  assumes "0 < c" "0 \<le> S" "k < chunkCount S c"
  shows "int k * c < S"
proof -
  have nn: "0 \<le> (S + c - 1) div c" using assms by (simp add: pos_imp_zdiv_nonneg_iff)
  have "int k + 1 \<le> (S + c - 1) div c" using assms nn by (simp add: chunkCount_def)
  then have "(int k + 1) * c \<le> (S + c - 1) div c * c" using assms by (simp add: mult_right_mono)
  moreover have "0 \<le> (S + c - 1) mod c" using assms by simp
  moreover have "(S + c - 1) div c * c + (S + c - 1) mod c = S + c - 1" by simp
  ultimately have "(int k + 1) * c \<le> S + c - 1" by linarith
  then show ?thesis by (simp add: algebra_simps)
qed

lemma planLoop_unfold:
  assumes "off < S" "0 \<le> off" "off + c \<le> 2 ^ 63 - 1" "0 < c" "S \<le> 2 ^ 63 - 1"
  shows "planLoop S c off idx cs =
         planLoop S c (off + c) (idx + 1)
           (cs @ [\<lparr>Index = idx, RangeStart = off, RangeEnd = min (off + c) S - 1,
                   Size = min (off + c) S - off\<rparr>])"
proof -
  have w1: "wrap64 (off + c) = off + c" using assms by (intro wrap64_id) linarith+
  have w2: "wrap64 (off + c - 1) = off + c - 1" using assms by (intro wrap64_id) linarith+
  have w3: "wrap64 (S - 1) = S - 1" using assms by (intro wrap64_id) linarith+
  show ?thesis
  proof (cases "S \<le> off + c - 1")
    case True
    have w4: "wrap64 (S - 1 - off) = S - 1 - off" using assms by (intro wrap64_id) linarith+
    have w5: "wrap64 (S - 1 - off + 1) = S - off" using assms by (simp add: wrap64_id)
    have m: "min (off + c) S = S" using True by simp
    show ?thesis using True assms(1)
      by (subst planLoop.simps) (simp only: w1 w2 w3 w4 w5 m Let_def if_True)
  next
    case False
    have w4: "wrap64 (off + c - 1 - off) = c - 1" using assms by (simp add: wrap64_id)
    have w5: "wrap64 (c - 1 + 1) = c" using assms by (simp add: wrap64_id)
    have m: "min (off + c) S = off + c" using False by simp
    have s: "off + c - off = c" by simp
    show ?thesis using False assms(1)
      by (subst planLoop.simps) (simp only: w1 w2 w3 w4 w5 m s Let_def if_True if_False)
  qed
qed

lemma planLoop_step:
  assumes "0 < c" "0 \<le> S" "int (chunkCount S c) * c \<le> 2 ^ 63 - 1" "k < chunkCount S c"
  shows "planLoop S c (int k * c) (int k) cs =
         planLoop S c (int (Suc k) * c) (int (Suc k)) (cs @ [idealChunk S c k])"
proof -
  have lt: "int k * c < S" using assms chunkCount_lower by blast
  have "int (Suc k) \<le> int (chunkCount S c)" using assms by simp
  then have "int (Suc k) * c \<le> int (chunkCount S c) * c" using assms(1) by (simp only: mult_right_mono)
  then have up: "int k * c + c \<le> 2 ^ 63 - 1" using assms by (simp add: algebra_simps)
  have k0: "0 \<le> int k * c" using assms by simp
  have Sup: "S \<le> 2 ^ 63 - 1" using chunkCount_upper[OF assms(1,2)] assms(3) by linarith
  have e: "int (Suc k) * c = int k * c + c" by (simp add: algebra_simps)
  have e': "int (Suc k) = int k + 1" by simp
  show ?thesis
    unfolding e idealChunk_def unfolding e' by (rule planLoop_unfold[OF lt k0 up assms(1) Sup])
qed

lemma planLoop_closed:
  assumes "0 < c" "0 \<le> S" "int (chunkCount S c) * c \<le> 2 ^ 63 - 1" "k \<le> chunkCount S c"
  shows "planLoop S c (int k * c) (int k) (map (idealChunk S c) [0..<k]) =
         Some (map (idealChunk S c) [0..<chunkCount S c])"
  using assms(4)
proof (induction "chunkCount S c - k" arbitrary: k)
  case 0
  then have "k = chunkCount S c" by simp
  then have "\<not> int k * c < S" using chunkCount_upper[OF assms(1,2)] by simp
  then show ?case using \<open>k = chunkCount S c\<close> by (subst planLoop.simps) simp
next
  case (Suc d)
  then have lt: "k < chunkCount S c" by simp
  have "planLoop S c (int (Suc k) * c) (int (Suc k)) (map (idealChunk S c) [0..<Suc k]) =
        Some (map (idealChunk S c) [0..<chunkCount S c])"
    using Suc lt by (intro Suc.hyps(1)) simp_all
  then show ?case using planLoop_step[OF assms(1,2,3) lt] by simp
qed

lemma planChunks_closed:
  assumes "0 < c" "0 \<le> S" "int (chunkCount S c) * c \<le> 2 ^ 63 - 1"
  shows "planChunks S c = Some (map (idealChunk S c) [0..<chunkCount S c])"
  using planLoop_closed[OF assms, of 0] by (simp add: planChunks_def)


lemma idealChunk_sum:
  assumes "0 < c" "0 \<le> S" "k \<le> chunkCount S c"
  shows "sum_list (map Size (map (idealChunk S c) [0..<k])) = min (int k * c) S"
  using assms(3)
proof (induction k)
  case 0
  then show ?case using assms by simp
next
  case (Suc k)
  then have "int k * c < S" using chunkCount_lower[OF assms(1,2), of k] by simp
  then show ?case using Suc by (simp add: idealChunk_def algebra_simps min_def)
qed

lemma idealChunk_cover:
  assumes "0 < c" "0 \<le> S" "k \<le> chunkCount S c"
  shows "(\<Union>x\<in>set (map (idealChunk S c) [0..<k]). {RangeStart x..RangeEnd x}) =
         {0..<min (int k * c) S}"
  using assms(3)
proof (induction k)
  case 0
  then show ?case using assms by simp
next
  case (Suc k)
  then have lt: "int k * c < S" using chunkCount_lower[OF assms(1,2), of k] by simp
  have k0: "0 \<le> int k * c" using assms by simp
  have "(\<Union>x\<in>set (map (idealChunk S c) [0..<Suc k]). {RangeStart x..RangeEnd x}) =
        {0..<min (int k * c) S} \<union> {int k * c..min (int k * c + c) S - 1}"
    using Suc by (simp add: idealChunk_def Un_commute)
  also have "\<dots> = {0..<min (int k * c + c) S}"
  proof -
    define a where "a = int k * c"
    have "0 \<le> a" "a < S" using lt k0 by (simp_all add: a_def)
    then have "{0..<min a S} \<union> {a..min (a + c) S - 1} = {0..<min (a + c) S}"
      using assms(1) by (auto simp: min_def)
    then show ?thesis by (simp add: a_def)
  qed
  also have "int k * c + c = int (Suc k) * c" by (simp add: algebra_simps)
  finally show ?case .
qed

lemma idealChunk_disjoint:
  assumes "0 < c" "i < j"
  shows "{RangeStart (idealChunk S c i)..RangeEnd (idealChunk S c i)} \<inter>
         {RangeStart (idealChunk S c j)..RangeEnd (idealChunk S c j)} = {}"
proof -
  have "int i + 1 \<le> int j" using assms by simp
  then have "(int i + 1) * c \<le> int j * c" using assms(1) by (simp only: mult_right_mono)
  then have "int i * c + c \<le> int j * c" by (simp add: algebra_simps)
  then show ?thesis by (auto simp: idealChunk_def)
qed

lemma planLoop_zero_chunk:
  assumes "planLoop S c off idx cs = Some y"
  shows "\<not> (c = 0 \<and> off < S \<and> wrap64 off = off)"
proof (rule planLoop.raw_induct[OF _ assms, where P = "\<lambda>S c off idx cs y. \<not> (c = 0 \<and> off < S \<and> wrap64 off = off)"])
  fix f S c off idx cs y
  assume ih: "\<And>S c off idx cs y. f S c off idx cs = Some y \<Longrightarrow> \<not> (c = 0 \<and> off < S \<and> wrap64 off = off)"
    and body: "(if off < S then
        let e = wrap64 (wrap64 (off + c) - 1);
            rend = (if e \<ge> S then wrap64 (S - 1) else e);
            x = \<lparr>Index = idx, RangeStart = off, RangeEnd = rend,
                 Size = wrap64 (wrap64 (rend - off) + 1)\<rparr>
        in f S c (wrap64 (off + c)) (idx + 1) (cs @ [x])
      else Some cs) = Some y"
  show "\<not> (c = 0 \<and> off < S \<and> wrap64 off = off)"
  proof
    assume a: "c = 0 \<and> off < S \<and> wrap64 off = off"
    then obtain x where "f S c (wrap64 (off + c)) (idx + 1) (cs @ [x]) = Some y"
      using body by (simp add: Let_def)
    then have "\<not> (c = 0 \<and> wrap64 (off + c) < S \<and> wrap64 (wrap64 (off + c)) = wrap64 (off + c))"
      by (rule ih)
    then show False using a by simp
  qed
qed

lemma planLoop_negative_chunk:
  assumes "planLoop S c off idx cs = Some y"
  shows "length cs \<le> length y \<and>
   (c < 0 \<and> 0 < S \<and> off = int (length cs) * c \<and> - (2 ^ 63) \<le> off \<longrightarrow>
      2 ^ 63 < int (length y) * (- c))"
proof (rule planLoop.raw_induct[OF _ assms, where P = "\<lambda>S c off idx cs y. length cs \<le> length y \<and>
   (c < 0 \<and> 0 < S \<and> off = int (length cs) * c \<and> - (2 ^ 63) \<le> off \<longrightarrow>
      2 ^ 63 < int (length y) * (- c))"])
  fix f S c off idx cs y
  assume ih: "\<And>S c off idx cs y. f S c off idx cs = Some y \<Longrightarrow> length cs \<le> length y \<and>
   (c < 0 \<and> 0 < S \<and> off = int (length cs) * c \<and> - (2 ^ 63) \<le> off \<longrightarrow>
      2 ^ 63 < int (length y) * (- c))"
    and body: "(if off < S then
        let e = wrap64 (wrap64 (off + c) - 1);
            rend = (if e \<ge> S then wrap64 (S - 1) else e);
            x = \<lparr>Index = idx, RangeStart = off, RangeEnd = rend,
                 Size = wrap64 (wrap64 (rend - off) + 1)\<rparr>
        in f S c (wrap64 (off + c)) (idx + 1) (cs @ [x])
      else Some cs) = Some y"
  show "length cs \<le> length y \<and>
   (c < 0 \<and> 0 < S \<and> off = int (length cs) * c \<and> - (2 ^ 63) \<le> off \<longrightarrow>
      2 ^ 63 < int (length y) * (- c))"
  proof (cases "off < S")
    case False
    then have y: "y = cs" using body by simp
    have "\<not> (c < 0 \<and> 0 < S \<and> off = int (length cs) * c)"
    proof
      assume a: "c < 0 \<and> 0 < S \<and> off = int (length cs) * c"
      then have "off \<le> 0" by (simp add: mult_nonneg_nonpos)
      then show False using a False by simp
    qed
    then show ?thesis using y by blast
  next
    case True
    then obtain x where call: "f S c (wrap64 (off + c)) (idx + 1) (cs @ [x]) = Some y"
      using body by (simp add: Let_def)
    note ih' = ih[OF call]
    from ih' have len: "length cs + 1 \<le> length y" by simp
    show ?thesis
    proof (intro conjI impI)
      show "length cs \<le> length y" using len by simp
    next
      assume a: "c < 0 \<and> 0 < S \<and> off = int (length cs) * c \<and> - (2 ^ 63) \<le> off"
      have offle: "off \<le> 0" using a by (simp add: mult_nonneg_nonpos)
      show "2 ^ 63 < int (length y) * (- c)"
      proof (cases "- (2 ^ 63) \<le> off + c")
        case True
        then have "wrap64 (off + c) = off + c" using a offle by (intro wrap64_id) linarith+
        moreover have "off + c = int (length (cs @ [x])) * c" using a by (simp add: algebra_simps)
        ultimately show ?thesis using ih' a True by simp
      next
        case False
        have "off + c = (int (length cs) + 1) * c" using a by (simp add: algebra_simps)
        then have "2 ^ 63 < (int (length cs) + 1) * (- c)" using False by simp
        moreover have "(int (length cs) + 1) * (- c) \<le> int (length y) * (- c)"
          using len a by (intro mult_right_mono) simp_all
        ultimately show ?thesis by linarith
      qed
    qed
  qed
qed

lemma planLoop_cycle:
  assumes "planLoop S c off idx cs = Some y"
  shows "\<not> (S = 9223372036854775807 \<and> c = 4611686018427387904 \<and>
     off \<in> {0, 4611686018427387904, - 9223372036854775808, - 4611686018427387904})"
proof (rule planLoop.raw_induct[OF _ assms, where P = "\<lambda>S c off idx cs y. \<not> (S = 9223372036854775807 \<and> c = 4611686018427387904 \<and>
     off \<in> {0, 4611686018427387904, - 9223372036854775808, - 4611686018427387904})"])
  fix f S c off idx cs y
  assume ih: "\<And>S c off idx cs y. f S c off idx cs = Some y \<Longrightarrow> \<not> (S = 9223372036854775807 \<and> c = 4611686018427387904 \<and>
     off \<in> {0, 4611686018427387904, - 9223372036854775808, - 4611686018427387904})"
    and body: "(if off < S then
        let e = wrap64 (wrap64 (off + c) - 1);
            rend = (if e \<ge> S then wrap64 (S - 1) else e);
            x = \<lparr>Index = idx, RangeStart = off, RangeEnd = rend,
                 Size = wrap64 (wrap64 (rend - off) + 1)\<rparr>
        in f S c (wrap64 (off + c)) (idx + 1) (cs @ [x])
      else Some cs) = Some y"
  show "\<not> (S = 9223372036854775807 \<and> c = 4611686018427387904 \<and>
     off \<in> {0, 4611686018427387904, - 9223372036854775808, - 4611686018427387904})"
  proof
    assume a: "S = 9223372036854775807 \<and> c = 4611686018427387904 \<and>
     off \<in> {0, 4611686018427387904, - 9223372036854775808, - 4611686018427387904}"
    then have "off < S" by auto
    then obtain x where call: "f S c (wrap64 (off + c)) (idx + 1) (cs @ [x]) = Some y"
      using body by (simp add: Let_def)
    have "wrap64 (off + c) \<in> {0, 4611686018427387904, - 9223372036854775808, - 4611686018427387904}"
      using a by (auto simp: wrap64_def)
    then show False using ih[OF call] a by blast
  qed
qed


lemma planChunks_plan_10_3:
  "planChunks 10 3 =
     Some [\<lparr>Index = 0, RangeStart = 0, RangeEnd = 2, Size = 3\<rparr>,
           \<lparr>Index = 1, RangeStart = 3, RangeEnd = 5, Size = 3\<rparr>,
           \<lparr>Index = 2, RangeStart = 6, RangeEnd = 8, Size = 3\<rparr>,
           \<lparr>Index = 3, RangeStart = 9, RangeEnd = 9, Size = 1\<rparr>]"
  by (simp add: planChunks_def planLoop.simps wrap64_def)

text \<open>
  Claim C1, as amended.  For every \<open>objectSize \<ge> 0\<close> and \<open>chunkSize > 0\<close> such that
  \<open>objectSize\<close> rounded up to the next multiple of \<open>chunkSize\<close> is at most
  \<open>2\<^sup>6\<^sup>3 - 1\<close> (no \<^verbatim>\<open>int64\<close> overflow in the loop), \<open>planChunks\<close> returns an
  ordered sequence of descriptors that partitions \<open>[0, objectSize)\<close> exactly: there are
  \<open>\<lceil>objectSize / chunkSize\<rceil>\<close> descriptors, indices are \<open>0..N-1\<close>, the first range
  starts at 0, the last ends at \<open>objectSize - 1\<close>, consecutive ranges are adjacent, every
  size is \<open>end - start + 1\<close>, at least 1 and at most \<open>chunkSize\<close>, every range but the
  last has size \<open>chunkSize\<close>, the sizes sum to \<open>objectSize\<close>, the ranges cover
  \<open>[0, objectSize)\<close> and are pairwise disjoint, and \<open>objectSize = 0\<close> yields the
  empty sequence.  In particular \<open>plan(10, 3)\<close> is the four descriptors of the spec.
\<close>

theorem planChunks_partition:
  "(0 \<le> objectSize \<and> 0 < chunkSize \<and>
    int (chunkCount objectSize chunkSize) * chunkSize \<le> 2 ^ 63 - 1 \<longrightarrow>
    (\<exists>chunks. planChunks objectSize chunkSize = Some chunks \<and>
       length chunks = chunkCount objectSize chunkSize \<and>
       (\<forall>i<length chunks. Index (chunks ! i) = int i \<and>
          Size (chunks ! i) = RangeEnd (chunks ! i) - RangeStart (chunks ! i) + 1 \<and>
          1 \<le> Size (chunks ! i) \<and> Size (chunks ! i) \<le> chunkSize) \<and>
       (\<forall>i. Suc i < length chunks \<longrightarrow>
          Size (chunks ! i) = chunkSize \<and>
          RangeEnd (chunks ! i) + 1 = RangeStart (chunks ! Suc i)) \<and>
       (chunks \<noteq> [] \<longrightarrow>
          RangeStart (chunks ! 0) = 0 \<and>
          RangeEnd (chunks ! (length chunks - 1)) = objectSize - 1) \<and>
       sum_list (map Size chunks) = objectSize \<and>
       (\<Union>x\<in>set chunks. {RangeStart x..RangeEnd x}) = {0..<objectSize} \<and>
       (\<forall>i<length chunks. \<forall>j<length chunks. i \<noteq> j \<longrightarrow>
          {RangeStart (chunks ! i)..RangeEnd (chunks ! i)} \<inter>
          {RangeStart (chunks ! j)..RangeEnd (chunks ! j)} = {}) \<and>
       (objectSize = 0 \<longrightarrow> chunks = []))) \<and>
   planChunks 10 3 =
     Some [\<lparr>Index = 0, RangeStart = 0, RangeEnd = 2, Size = 3\<rparr>,
           \<lparr>Index = 1, RangeStart = 3, RangeEnd = 5, Size = 3\<rparr>,
           \<lparr>Index = 2, RangeStart = 6, RangeEnd = 8, Size = 3\<rparr>,
           \<lparr>Index = 3, RangeStart = 9, RangeEnd = 9, Size = 1\<rparr>]"
proof (intro conjI impI)
  assume hyp: "0 \<le> objectSize \<and> 0 < chunkSize \<and>
    int (chunkCount objectSize chunkSize) * chunkSize \<le> 2 ^ 63 - 1"
  then have S: "0 \<le> objectSize" and c: "0 < chunkSize"
    and fit: "int (chunkCount objectSize chunkSize) * chunkSize \<le> 2 ^ 63 - 1" by simp_all
  let ?N = "chunkCount objectSize chunkSize"
  define chunks where "chunks = map (idealChunk objectSize chunkSize) [0..<?N]"
  have plan: "planChunks objectSize chunkSize = Some chunks"
    unfolding chunks_def by (rule planChunks_closed[OF c S fit])
  have len: "length chunks = ?N" by (simp add: chunks_def)
  have nth: "chunks ! i = idealChunk objectSize chunkSize i" if "i < ?N" for i
    using that by (simp add: chunks_def)
  have below: "int i * chunkSize < objectSize" if "i < ?N" for i
    using chunkCount_lower[OF c S that] .
  have upper: "objectSize \<le> int ?N * chunkSize" using chunkCount_upper[OF c S] .
  have each: "\<forall>i<length chunks. Index (chunks ! i) = int i \<and>
          Size (chunks ! i) = RangeEnd (chunks ! i) - RangeStart (chunks ! i) + 1 \<and>
          1 \<le> Size (chunks ! i) \<and> Size (chunks ! i) \<le> chunkSize"
  proof (intro allI impI)
    fix i assume "i < length chunks"
    then have i: "i < ?N" by (simp add: len)
    from below[OF i] c show "Index (chunks ! i) = int i \<and>
          Size (chunks ! i) = RangeEnd (chunks ! i) - RangeStart (chunks ! i) + 1 \<and>
          1 \<le> Size (chunks ! i) \<and> Size (chunks ! i) \<le> chunkSize"
      by (simp add: nth[OF i] idealChunk_def min_def)
  qed
  have adj: "\<forall>i. Suc i < length chunks \<longrightarrow>
          Size (chunks ! i) = chunkSize \<and>
          RangeEnd (chunks ! i) + 1 = RangeStart (chunks ! Suc i)"
  proof (intro allI impI)
    fix i assume lt: "Suc i < length chunks"
    then have si: "Suc i < ?N" by (simp add: len)
    have "int (Suc i) * chunkSize < objectSize" by (rule below[OF si])
    then have "int i * chunkSize + chunkSize < objectSize" by (simp add: algebra_simps)
    then show "Size (chunks ! i) = chunkSize \<and>
          RangeEnd (chunks ! i) + 1 = RangeStart (chunks ! Suc i)"
      using lt by (simp add: len nth idealChunk_def algebra_simps)
  qed
  have ends: "chunks \<noteq> [] \<longrightarrow>
          RangeStart (chunks ! 0) = 0 \<and>
          RangeEnd (chunks ! (length chunks - 1)) = objectSize - 1"
  proof
    assume "chunks \<noteq> []"
    then have pos: "0 < ?N" using len by (cases chunks) auto
    then have "int (?N - 1) * chunkSize + chunkSize = int ?N * chunkSize"
      by (simp add: algebra_simps of_nat_diff)
    then have "min (int (?N - 1) * chunkSize + chunkSize) objectSize = objectSize"
      using upper by simp
    then show "RangeStart (chunks ! 0) = 0 \<and>
          RangeEnd (chunks ! (length chunks - 1)) = objectSize - 1"
      using pos by (simp add: len nth idealChunk_def)
  qed
  have total: "sum_list (map Size chunks) = objectSize"
    using idealChunk_sum[OF c S, of ?N] upper by (simp add: chunks_def)
  have cover: "(\<Union>x\<in>set chunks. {RangeStart x..RangeEnd x}) = {0..<objectSize}"
    using idealChunk_cover[OF c S, of ?N] upper unfolding chunks_def by simp
  have disj: "\<forall>i<length chunks. \<forall>j<length chunks. i \<noteq> j \<longrightarrow>
          {RangeStart (chunks ! i)..RangeEnd (chunks ! i)} \<inter>
          {RangeStart (chunks ! j)..RangeEnd (chunks ! j)} = {}"
  proof (intro allI impI)
    fix i j assume i: "i < length chunks" and j: "j < length chunks" and ne: "i \<noteq> j"
    consider "i < j" | "j < i" using ne by linarith
    then show "{RangeStart (chunks ! i)..RangeEnd (chunks ! i)} \<inter>
          {RangeStart (chunks ! j)..RangeEnd (chunks ! j)} = {}"
    proof cases
      case 1
      then show ?thesis using idealChunk_disjoint[OF c 1, of objectSize] i j by (simp add: len nth)
    next
      case 2
      then show ?thesis using idealChunk_disjoint[OF c 2, of objectSize] i j
        by (simp add: len nth Int_commute)
    qed
  qed
  have empty: "objectSize = 0 \<longrightarrow> chunks = []"
    using c by (simp add: chunks_def chunkCount_def)
  show "\<exists>chunks. planChunks objectSize chunkSize = Some chunks \<and>
       length chunks = chunkCount objectSize chunkSize \<and>
       (\<forall>i<length chunks. Index (chunks ! i) = int i \<and>
          Size (chunks ! i) = RangeEnd (chunks ! i) - RangeStart (chunks ! i) + 1 \<and>
          1 \<le> Size (chunks ! i) \<and> Size (chunks ! i) \<le> chunkSize) \<and>
       (\<forall>i. Suc i < length chunks \<longrightarrow>
          Size (chunks ! i) = chunkSize \<and>
          RangeEnd (chunks ! i) + 1 = RangeStart (chunks ! Suc i)) \<and>
       (chunks \<noteq> [] \<longrightarrow>
          RangeStart (chunks ! 0) = 0 \<and>
          RangeEnd (chunks ! (length chunks - 1)) = objectSize - 1) \<and>
       sum_list (map Size chunks) = objectSize \<and>
       (\<Union>x\<in>set chunks. {RangeStart x..RangeEnd x}) = {0..<objectSize} \<and>
       (\<forall>i<length chunks. \<forall>j<length chunks. i \<noteq> j \<longrightarrow>
          {RangeStart (chunks ! i)..RangeEnd (chunks ! i)} \<inter>
          {RangeStart (chunks ! j)..RangeEnd (chunks ! j)} = {}) \<and>
       (objectSize = 0 \<longrightarrow> chunks = [])"
    using plan len each adj ends total cover disj empty by blast
next
  show "planChunks 10 3 =
     Some [\<lparr>Index = 0, RangeStart = 0, RangeEnd = 2, Size = 3\<rparr>,
           \<lparr>Index = 1, RangeStart = 3, RangeEnd = 5, Size = 3\<rparr>,
           \<lparr>Index = 2, RangeStart = 6, RangeEnd = 8, Size = 3\<rparr>,
           \<lparr>Index = 3, RangeStart = 9, RangeEnd = 9, Size = 1\<rparr>]"
    by (rule planChunks_plan_10_3)
qed

text \<open>The hypotheses of C1 hold at \<open>objectSize = 10\<close>, \<open>chunkSize = 3\<close>.\<close>

theorem planChunks_partition_witness:
  "(0::int) \<le> 10 \<and> (0::int) < 3 \<and> int (chunkCount 10 3) * 3 \<le> 2 ^ 63 - 1 \<and>
   (\<exists>chunks. planChunks 10 3 = Some chunks \<and> length chunks = 4 \<and>
      sum_list (map Size chunks) = 10 \<and>
      (\<Union>x\<in>set chunks. {RangeStart x..RangeEnd x}) = {0..<10})"
proof -
  have h: "(0::int) \<le> 10 \<and> (0::int) < 3 \<and> int (chunkCount 10 3) * 3 \<le> 2 ^ 63 - 1"
    by (simp add: chunkCount_def)
  have n: "chunkCount 10 3 = 4" by (simp add: chunkCount_def)
  from planChunks_partition[of 10 3] h n show ?thesis by auto
qed

text \<open>
  Claim C1 as stated, for every \<open>objectSize \<ge> 0\<close> and \<open>chunkSize > 0\<close>, fails where
  the offset overflows: for \<open>objectSize = 2\<^sup>6\<^sup>2 + 2\<close> and \<open>chunkSize = 2\<^sup>6\<^sup>2 + 1\<close> the
  second iteration computes \<open>offset + chunkSize - 1\<close> beyond \<open>2\<^sup>6\<^sup>3 - 1\<close>, and the loop
  returns five descriptors, three of them with negative bounds.
\<close>

theorem planChunks_overflow_counterexample:
  "(0::int) \<le> 4611686018427387906 \<and> (0::int) < 4611686018427387905 \<and>
   planChunks 4611686018427387906 4611686018427387905 =
     Some [\<lparr>Index = 0, RangeStart = 0, RangeEnd = 4611686018427387904,
             Size = 4611686018427387905\<rparr>,
           \<lparr>Index = 1, RangeStart = 4611686018427387905,
             RangeEnd = - 9223372036854775807, Size = 4611686018427387905\<rparr>,
           \<lparr>Index = 2, RangeStart = - 9223372036854775806,
             RangeEnd = - 4611686018427387902, Size = 4611686018427387905\<rparr>,
           \<lparr>Index = 3, RangeStart = - 4611686018427387901, RangeEnd = 3,
             Size = 4611686018427387905\<rparr>,
           \<lparr>Index = 4, RangeStart = 4, RangeEnd = 4611686018427387905,
             Size = 4611686018427387902\<rparr>]"
  by (simp add: planChunks_def planLoop.simps wrap64_def)

text \<open>
  Claim C9, as amended.  \<open>planChunks\<close> returns for every \<open>objectSize \<ge> 0\<close> and
  \<open>chunkSize > 0\<close> such that \<open>objectSize\<close> rounded up to the next multiple of
  \<open>chunkSize\<close> is at most \<open>2\<^sup>6\<^sup>3 - 1\<close>.  With \<open>chunkSize = 0\<close> it never returns for
  any \<open>objectSize > 0\<close>.  With \<open>chunkSize < 0\<close> and \<open>objectSize > 0\<close> it cannot return
  before the offset has wrapped around: a returned plan has more than
  \<open>2\<^sup>6\<^sup>3 / |chunkSize|\<close> descriptors.
\<close>

theorem planChunks_termination:
  "(0 \<le> objectSize \<and> 0 < chunkSize \<and>
    int (chunkCount objectSize chunkSize) * chunkSize \<le> 2 ^ 63 - 1 \<longrightarrow>
      (\<exists>chunks. planChunks objectSize chunkSize = Some chunks)) \<and>
   (0 < objectSize \<longrightarrow> planChunks objectSize 0 = None) \<and>
   (0 < objectSize \<and> chunkSize < 0 \<longrightarrow>
      (\<forall>chunks. planChunks objectSize chunkSize = Some chunks \<longrightarrow>
         2 ^ 63 < int (length chunks) * (- chunkSize)))"
proof (intro conjI impI allI)
  assume "0 \<le> objectSize \<and> 0 < chunkSize \<and>
    int (chunkCount objectSize chunkSize) * chunkSize \<le> 2 ^ 63 - 1"
  then show "\<exists>chunks. planChunks objectSize chunkSize = Some chunks"
    using planChunks_closed[of chunkSize objectSize] by simp
next
  assume pos: "0 < objectSize"
  show "planChunks objectSize 0 = None"
  proof (cases "planChunks objectSize 0")
    case None
    then show ?thesis .
  next
    case (Some y)
    then have "planLoop objectSize 0 0 0 [] = Some y" by (simp add: planChunks_def)
    from planLoop_zero_chunk[OF this] pos show ?thesis by (simp add: wrap64_def)
  qed
next
  fix chunks
  assume a: "0 < objectSize \<and> chunkSize < 0"
    and r: "planChunks objectSize chunkSize = Some chunks"
  from r have "planLoop objectSize chunkSize 0 0 [] = Some chunks" by (simp add: planChunks_def)
  from planLoop_negative_chunk[OF this] a
  show "2 ^ 63 < int (length chunks) * (- chunkSize)" by simp
qed

text \<open>
  The three hypotheses of C9 hold at \<open>(10, 3)\<close>, at \<open>(10, 0)\<close> and at
  \<open>(1, -(2\<^sup>6\<^sup>2 + 1))\<close>, where the loop returns after two iterations.
\<close>

theorem planChunks_termination_witness:
  "(0::int) \<le> 10 \<and> (0::int) < 3 \<and> int (chunkCount 10 3) * 3 \<le> 2 ^ 63 - 1 \<and>
   (\<exists>chunks. planChunks 10 3 = Some chunks) \<and>
   (0::int) < 10 \<and> planChunks 10 0 = None \<and>
   (0::int) < 1 \<and> (- 4611686018427387905::int) < 0 \<and>
   planChunks 1 (- 4611686018427387905) =
     Some [\<lparr>Index = 0, RangeStart = 0, RangeEnd = - 4611686018427387906,
             Size = - 4611686018427387905\<rparr>,
           \<lparr>Index = 1, RangeStart = - 4611686018427387905, RangeEnd = 0,
             Size = 4611686018427387906\<rparr>] \<and>
   (2 ^ 63 :: int) < int (length [\<lparr>Index = 0, RangeStart = 0, RangeEnd = - 4611686018427387906,
             Size = - 4611686018427387905\<rparr>,
           \<lparr>Index = 1, RangeStart = - 4611686018427387905, RangeEnd = 0,
             Size = 4611686018427387906\<rparr>]) * (- (- 4611686018427387905))"
proof -
  have h: "(0::int) \<le> 10 \<and> (0::int) < 3 \<and> int (chunkCount 10 3) * 3 \<le> 2 ^ 63 - 1"
    by (simp add: chunkCount_def)
  have e: "planChunks 1 (- 4611686018427387905) =
     Some [\<lparr>Index = 0, RangeStart = 0, RangeEnd = - 4611686018427387906,
             Size = - 4611686018427387905\<rparr>,
           \<lparr>Index = 1, RangeStart = - 4611686018427387905, RangeEnd = 0,
             Size = 4611686018427387906\<rparr>]"
    by (simp add: planChunks_def planLoop.simps wrap64_def)
  from planChunks_termination[of 10 3] h have 1: "\<exists>chunks. planChunks 10 3 = Some chunks" by blast
  from planChunks_termination[of 10 0] have 2: "planChunks 10 0 = None" by simp
  from planChunks_termination[of 1 "- 4611686018427387905"] e
  have 3: "(2 ^ 63 :: int) < int (length [\<lparr>Index = 0, RangeStart = 0, RangeEnd = - 4611686018427387906,
             Size = - 4611686018427387905\<rparr>,
           \<lparr>Index = 1, RangeStart = - 4611686018427387905, RangeEnd = 0,
             Size = 4611686018427387906\<rparr>]) * (- (- 4611686018427387905))"
    by simp
  show ?thesis using h 1 2 e 3 by simp
qed

text \<open>
  Claim C9 as stated fails in both directions: with \<open>chunkSize = 2\<^sup>6\<^sup>2 > 0\<close> and
  \<open>objectSize = 2\<^sup>6\<^sup>3 - 1\<close> the offset cycles through \<open>0, 2\<^sup>6\<^sup>2, -2\<^sup>6\<^sup>3, -2\<^sup>6\<^sup>2\<close> and the
  loop never returns; with \<open>chunkSize = -(2\<^sup>6\<^sup>2 + 1) \<le> 0\<close> and \<open>objectSize = 1\<close> the offset
  wraps to \<open>2\<^sup>6\<^sup>3 - 2\<close> and the loop returns after two iterations.
\<close>

theorem planChunks_termination_counterexample:
  "(0::int) \<le> 9223372036854775807 \<and> (0::int) < 4611686018427387904 \<and>
   planChunks 9223372036854775807 4611686018427387904 = None \<and>
   (0::int) < 1 \<and> (- 4611686018427387905::int) \<le> 0 \<and>
   planChunks 1 (- 4611686018427387905) =
     Some [\<lparr>Index = 0, RangeStart = 0, RangeEnd = - 4611686018427387906,
             Size = - 4611686018427387905\<rparr>,
           \<lparr>Index = 1, RangeStart = - 4611686018427387905, RangeEnd = 0,
             Size = 4611686018427387906\<rparr>]"
proof -
  have "planChunks 9223372036854775807 4611686018427387904 = None"
  proof (cases "planChunks 9223372036854775807 4611686018427387904")
    case None
    then show ?thesis .
  next
    case (Some y)
    then have "planLoop 9223372036854775807 4611686018427387904 0 0 [] = Some y"
      by (simp add: planChunks_def)
    from planLoop_cycle[OF this] show ?thesis by simp
  qed
  moreover have "planChunks 1 (- 4611686018427387905) =
     Some [\<lparr>Index = 0, RangeStart = 0, RangeEnd = - 4611686018427387906,
             Size = - 4611686018427387905\<rparr>,
           \<lparr>Index = 1, RangeStart = - 4611686018427387905, RangeEnd = 0,
             Size = 4611686018427387906\<rparr>]"
    by (simp add: planChunks_def planLoop.simps wrap64_def)
  ultimately show ?thesis by simp
qed
section \<open>Properties of the fetch operation\<close>

text \<open>
  Claim C2, as amended.  In capture mode, for a range whose buffer the runtime can
  allocate (\<open>Size chunk\<close> is not negative and within the two limits of the allocator),
  when the response stream ends short of \<open>Size chunk\<close> bytes, \<open>downloadChunk\<close> returns
  an outcome carrying a read error exactly when the stream ends with an error other
  than \<open>ErrUnexpectedEOF\<close>, or ends cleanly before the first byte; the output buffers
  are then left as they were, so no partial buffer is exposed.  When the stream ends
  cleanly after at least one byte, or with \<open>ErrUnexpectedEOF\<close>, the short read is
  accepted: the outcome carries no error, its size is the number of bytes read, and the
  partial buffer is stored at \<open>outBufs[Index chunk]\<close>.
\<close>

theorem downloadChunk_capture_short_stream:
  assumes "getObject world = Inr resp"
    and "0 \<le> Size chunk"
    and "Size chunk \<le> maxAlloc world"
    and "Size chunk \<le> heapFree world"
    and "length (content resp) < nat (Size chunk)"
  shows "(ending resp \<noteq> ErrUnexpectedEOF \<and> (ending resp = EOF \<longrightarrow> content resp = []) \<longrightarrow>
            downloadChunk world chunk (Some bufs) progress =
              Inr (\<lparr>Index_res = Index chunk, Size_res = 0, StartTime = clockStart world,
                     TTFB = sinceHeaders world, ElapsedTotal = 0,
                     Err = Some (ReadingChunkBody (Index chunk) (ending resp))\<rparr>,
                   Some bufs, countingReader progress (length (content resp)))) \<and>
         ((ending resp = ErrUnexpectedEOF \<or> (ending resp = EOF \<and> content resp \<noteq> [])) \<and>
          0 \<le> Index chunk \<and> Index chunk < int (length bufs) \<longrightarrow>
            downloadChunk world chunk (Some bufs) progress =
              Inr (\<lparr>Index_res = Index chunk, Size_res = int (length (content resp)),
                     StartTime = clockStart world, TTFB = sinceHeaders world,
                     ElapsedTotal = sinceBody world, Err = None\<rparr>,
                   Some (bufs[nat (Index chunk) := content resp]),
                   countingReader progress (length (content resp))))"
proof -
  have m: "makeBytes world (Size chunk) = None"
    using assms(2-4) by (simp add: makeBytes_def)
  show ?thesis
    using assms(1,5) by (auto simp: downloadChunk_def m ReadFull_def)
qed

text \<open>
  The hypotheses of C2 hold for a range of four bytes and a stream that fails with a
  transport error after two bytes (an error outcome, buffers untouched), and for a
  stream that ends cleanly after two bytes (a successful outcome of size 2).
\<close>

theorem downloadChunk_capture_short_stream_witness:
  "downloadChunk
     \<lparr>getObject = Inr \<lparr>content = [1, 2], ending = Transport ''connection reset''\<rparr>,
      clockStart = 5, sinceHeaders = 7, sinceBody = 9,
      maxAlloc = 281474976710656, heapFree = 1073741824\<rparr>
     \<lparr>Index = 0, RangeStart = 0, RangeEnd = 3, Size = 4\<rparr> (Some [[]]) (Some 0) =
   Inr (\<lparr>Index_res = 0, Size_res = 0, StartTime = 5, TTFB = 7, ElapsedTotal = 0,
          Err = Some (ReadingChunkBody 0 (Transport ''connection reset''))\<rparr>,
        Some [[]], Some 2) \<and>
   downloadChunk
     \<lparr>getObject = Inr \<lparr>content = [1, 2], ending = EOF\<rparr>,
      clockStart = 5, sinceHeaders = 7, sinceBody = 9,
      maxAlloc = 281474976710656, heapFree = 1073741824\<rparr>
     \<lparr>Index = 0, RangeStart = 0, RangeEnd = 3, Size = 4\<rparr> (Some [[]]) (Some 0) =
   Inr (\<lparr>Index_res = 0, Size_res = 2, StartTime = 5, TTFB = 7, ElapsedTotal = 9,
          Err = None\<rparr>,
        Some [[1, 2]], Some 2)"
proof -
  let ?c = "\<lparr>Index = 0, RangeStart = 0, RangeEnd = 3, Size = 4\<rparr>"
  let ?w1 = "\<lparr>getObject = Inr \<lparr>content = [1, 2], ending = Transport ''connection reset''\<rparr>,
      clockStart = 5, sinceHeaders = 7, sinceBody = 9,
      maxAlloc = 281474976710656, heapFree = 1073741824\<rparr>"
  let ?w2 = "\<lparr>getObject = Inr \<lparr>content = [1, 2], ending = EOF\<rparr>,
      clockStart = 5, sinceHeaders = 7, sinceBody = 9,
      maxAlloc = 281474976710656, heapFree = 1073741824\<rparr>"
  have 1: "getObject ?w1 = Inr \<lparr>content = [1, 2], ending = Transport ''connection reset''\<rparr>"
    and 2: "getObject ?w2 = Inr \<lparr>content = [1, 2], ending = EOF\<rparr>"
    and 3: "0 \<le> Size ?c"
    and a1: "Size ?c \<le> maxAlloc ?w1" and b1: "Size ?c \<le> heapFree ?w1"
    and a2: "Size ?c \<le> maxAlloc ?w2" and b2: "Size ?c \<le> heapFree ?w2" by simp_all
  have 4: "length (content \<lparr>content = [1, 2 :: byte], ending = Transport ''connection reset''\<rparr>)
             < nat (Size ?c)"
    and 5: "length (content \<lparr>content = [1, 2 :: byte], ending = EOF\<rparr>) < nat (Size ?c)"
    by simp_all
  from downloadChunk_capture_short_stream[OF 1 3 a1 b1 4, of "[[]]" "Some 0"]
       downloadChunk_capture_short_stream[OF 2 3 a2 b2 5, of "[[]]" "Some 0"]
  show ?thesis by (simp add: countingReader_def wrap64_def)
qed

text \<open>
  Claim C2 as stated fails: for a range of four bytes and a stream that ends after two
  bytes, \<open>downloadChunk\<close> in capture mode returns an outcome without error, of size 2,
  and stores the two bytes in the output buffers.
\<close>

theorem downloadChunk_short_read_counterexample:
  "downloadChunk
     \<lparr>getObject = Inr \<lparr>content = [1, 2], ending = EOF\<rparr>,
      clockStart = 5, sinceHeaders = 7, sinceBody = 9,
      maxAlloc = 281474976710656, heapFree = 1073741824\<rparr>
     \<lparr>Index = 0, RangeStart = 0, RangeEnd = 3, Size = 4\<rparr> (Some [[]]) (Some 0) =
   Inr (\<lparr>Index_res = 0, Size_res = 2, StartTime = 5, TTFB = 7, ElapsedTotal = 9,
          Err = None\<rparr>,
        Some [[1, 2]], Some 2)"
  by (simp add: downloadChunk_def makeBytes_def ReadFull_def countingReader_def wrap64_def)

text \<open>
  Claim C10, as amended.  In discard mode \<open>downloadChunk\<close> validates no length:
  whenever the body ends cleanly (\<open>EOF\<close>), the outcome is successful and its size is
  the number of bytes read, whatever the planned \<open>Size chunk\<close> is, and the planned
  size has no influence on the result at all; a body that ends with any other error,
  \<open>ErrUnexpectedEOF\<close> included, gives a draining error.  For a stream that ends short
  of the planned size the two modes compare as follows (the buffer being allocatable
  and the index within the output buffers): discard mode fails exactly when the stream
  does not end cleanly; capture mode succeeds exactly when the stream ends with
  \<open>ErrUnexpectedEOF\<close>, or cleanly after at least one byte.  So a short stream that ends
  cleanly before its first byte is an error in capture mode only, a short stream that
  ends cleanly later is an error in neither mode, and a stream cut with
  \<open>ErrUnexpectedEOF\<close> is an error in discard mode only.
\<close>

theorem downloadChunk_discard_no_length_check:
  "(getObject world = Inr resp \<and> ending resp = EOF \<longrightarrow>
      downloadChunk world chunk None progress =
        Inr (\<lparr>Index_res = Index chunk, Size_res = int (length (content resp)),
               StartTime = clockStart world, TTFB = sinceHeaders world,
               ElapsedTotal = sinceBody world, Err = None\<rparr>,
             None, countingReader progress (length (content resp)))) \<and>
   (getObject world = Inr resp \<and> ending resp \<noteq> EOF \<longrightarrow>
      downloadChunk world chunk None progress =
        Inr (\<lparr>Index_res = Index chunk, Size_res = 0,
               StartTime = clockStart world, TTFB = sinceHeaders world,
               ElapsedTotal = 0,
               Err = Some (DrainingChunkBody (Index chunk) (ending resp))\<rparr>,
             None, countingReader progress (length (content resp)))) \<and>
   downloadChunk world (chunk\<lparr>Size := planned\<rparr>) None progress =
     downloadChunk world chunk None progress \<and>
   (getObject world = Inr resp \<and> length (content resp) < nat (Size chunk) \<and>
    makeBytes world (Size chunk) = None \<and>
    0 \<le> Index chunk \<and> Index chunk < int (length bufs) \<longrightarrow>
      (\<exists>dis pr cap ob pr'.
         downloadChunk world chunk None progress = Inr (dis, None, pr) \<and>
         downloadChunk world chunk (Some bufs) progress = Inr (cap, ob, pr') \<and>
         (Err dis = None \<longleftrightarrow> ending resp = EOF) \<and>
         (Err cap = None \<longleftrightarrow>
            ending resp = ErrUnexpectedEOF \<or> (ending resp = EOF \<and> content resp \<noteq> []))))"
proof -
  have clean: "downloadChunk world chunk None progress =
        Inr (\<lparr>Index_res = Index chunk, Size_res = int (length (content resp)),
               StartTime = clockStart world, TTFB = sinceHeaders world,
               ElapsedTotal = sinceBody world, Err = None\<rparr>,
             None, countingReader progress (length (content resp)))"
    if "getObject world = Inr resp \<and> ending resp = EOF"
    using that by (simp add: downloadChunk_def CopyDiscard_def)
  have failing: "downloadChunk world chunk None progress =
        Inr (\<lparr>Index_res = Index chunk, Size_res = 0,
               StartTime = clockStart world, TTFB = sinceHeaders world,
               ElapsedTotal = 0,
               Err = Some (DrainingChunkBody (Index chunk) (ending resp))\<rparr>,
             None, countingReader progress (length (content resp)))"
    if "getObject world = Inr resp \<and> ending resp \<noteq> EOF"
    using that by (simp add: downloadChunk_def CopyDiscard_def)
  have planned: "downloadChunk world (chunk\<lparr>Size := planned\<rparr>) None progress =
     downloadChunk world chunk None progress"
    by (simp add: downloadChunk_def split: sum.splits)
  have short: "\<exists>dis pr cap ob pr'.
         downloadChunk world chunk None progress = Inr (dis, None, pr) \<and>
         downloadChunk world chunk (Some bufs) progress = Inr (cap, ob, pr') \<and>
         (Err dis = None \<longleftrightarrow> ending resp = EOF) \<and>
         (Err cap = None \<longleftrightarrow>
            ending resp = ErrUnexpectedEOF \<or> (ending resp = EOF \<and> content resp \<noteq> []))"
    if a: "getObject world = Inr resp \<and> length (content resp) < nat (Size chunk) \<and>
      makeBytes world (Size chunk) = None \<and>
      0 \<le> Index chunk \<and> Index chunk < int (length bufs)"
  proof -
    have d: "\<exists>dis pr. downloadChunk world chunk None progress = Inr (dis, None, pr) \<and>
        (Err dis = None \<longleftrightarrow> ending resp = EOF)"
    proof (cases "ending resp = EOF")
      case True
      then show ?thesis using clean a by simp
    next
      case False
      then show ?thesis using failing a by simp
    qed
    have c: "\<exists>cap ob pr'. downloadChunk world chunk (Some bufs) progress = Inr (cap, ob, pr') \<and>
        (Err cap = None \<longleftrightarrow>
            ending resp = ErrUnexpectedEOF \<or> (ending resp = EOF \<and> content resp \<noteq> []))"
      using a by (auto simp: downloadChunk_def ReadFull_def)
    from d obtain dis pr
      where dis: "downloadChunk world chunk None progress = Inr (dis, None, pr)"
        "Err dis = None \<longleftrightarrow> ending resp = EOF" by (elim exE conjE)
    from c obtain cap ob pr'
      where cap: "downloadChunk world chunk (Some bufs) progress = Inr (cap, ob, pr')"
        "Err cap = None \<longleftrightarrow>
            ending resp = ErrUnexpectedEOF \<or> (ending resp = EOF \<and> content resp \<noteq> [])"
      by (elim exE conjE)
    show ?thesis
      by (intro exI conjI) (rule dis(1), rule cap(1), rule dis(2), rule cap(2))
  qed
  show ?thesis using clean failing planned short by blast
qed

text \<open>
  The hypotheses of C10 hold for a planned range of four bytes and a stream of two
  bytes: when it ends cleanly, both modes return a success of size 2; when it ends with
  a transport error, discard mode returns a draining error.
\<close>

theorem downloadChunk_discard_no_length_check_witness:
  "let c = \<lparr>Index = 0, RangeStart = 0, RangeEnd = 3, Size = 4\<rparr>;
       w1 = \<lparr>getObject = Inr \<lparr>content = [1, 2], ending = EOF\<rparr>,
             clockStart = 5, sinceHeaders = 7, sinceBody = 9,
             maxAlloc = 281474976710656, heapFree = 1073741824\<rparr>;
       w2 = \<lparr>getObject = Inr \<lparr>content = [1, 2], ending = Transport ''connection reset''\<rparr>,
             clockStart = 5, sinceHeaders = 7, sinceBody = 9,
             maxAlloc = 281474976710656, heapFree = 1073741824\<rparr>
   in downloadChunk w1 c None (Some 0) =
        Inr (\<lparr>Index_res = 0, Size_res = 2, StartTime = 5, TTFB = 7, ElapsedTotal = 9,
               Err = None\<rparr>,
             None, Some 2) \<and>
      downloadChunk w2 c None (Some 0) =
        Inr (\<lparr>Index_res = 0, Size_res = 0, StartTime = 5, TTFB = 7, ElapsedTotal = 0,
               Err = Some (DrainingChunkBody 0 (Transport ''connection reset''))\<rparr>,
             None, Some 2) \<and>
      makeBytes w1 (Size c) = None \<and>
      (\<exists>dis pr cap ob pr'.
         downloadChunk w1 c None (Some 0) = Inr (dis, None, pr) \<and>
         downloadChunk w1 c (Some [[]]) (Some 0) = Inr (cap, ob, pr') \<and>
         Err dis = None \<and> Err cap = None)"
proof -
  let ?c = "\<lparr>Index = 0, RangeStart = 0, RangeEnd = 3, Size = 4\<rparr>"
  let ?r1 = "\<lparr>content = [1, 2 :: byte], ending = EOF\<rparr>"
  let ?r2 = "\<lparr>content = [1, 2 :: byte], ending = Transport ''connection reset''\<rparr>"
  let ?w1 = "\<lparr>getObject = Inr ?r1, clockStart = 5, sinceHeaders = 7, sinceBody = 9,
      maxAlloc = 281474976710656, heapFree = 1073741824\<rparr>"
  let ?w2 = "\<lparr>getObject = Inr ?r2, clockStart = 5, sinceHeaders = 7, sinceBody = 9,
      maxAlloc = 281474976710656, heapFree = 1073741824\<rparr>"
  note i1 = downloadChunk_discard_no_length_check[of ?w1 ?r1 ?c "Some 0" 4 "[[]]"]
  note i2 = downloadChunk_discard_no_length_check[of ?w2 ?r2 ?c "Some 0" 4 "[[]]"]
  have m: "makeBytes ?w1 (Size ?c) = None" by (simp add: makeBytes_def)
  have 1: "downloadChunk ?w1 ?c None (Some 0) =
      Inr (\<lparr>Index_res = 0, Size_res = 2, StartTime = 5, TTFB = 7, ElapsedTotal = 9,
          Err = None\<rparr>, None, Some 2)"
    using i1 by (simp add: countingReader_def wrap64_def)
  have 2: "downloadChunk ?w2 ?c None (Some 0) =
      Inr (\<lparr>Index_res = 0, Size_res = 0, StartTime = 5, TTFB = 7, ElapsedTotal = 0,
          Err = Some (DrainingChunkBody 0 (Transport ''connection reset''))\<rparr>, None, Some 2)"
    using i2 by (simp add: countingReader_def wrap64_def)
  have 3: "\<exists>dis pr cap ob pr'.
      downloadChunk ?w1 ?c None (Some 0) = Inr (dis, None, pr) \<and>
      downloadChunk ?w1 ?c (Some [[]]) (Some 0) = Inr (cap, ob, pr') \<and>
      Err dis = None \<and> Err cap = None"
  proof -
    have h: "getObject ?w1 = Inr ?r1 \<and> length (content ?r1) < nat (Size ?c) \<and>
        makeBytes ?w1 (Size ?c) = None \<and> 0 \<le> Index ?c \<and> Index ?c < int (length [[] :: byte list])"
      using m by simp
    note short = i1[THEN conjunct2, THEN conjunct2, THEN conjunct2, THEN mp, OF h]
    then obtain dis pr cap ob pr'
      where r: "downloadChunk ?w1 ?c None (Some 0) = Inr (dis, None, pr)"
        "downloadChunk ?w1 ?c (Some [[]]) (Some 0) = Inr (cap, ob, pr')"
        "Err dis = None \<longleftrightarrow> ending ?r1 = EOF"
        "Err cap = None \<longleftrightarrow>
           ending ?r1 = ErrUnexpectedEOF \<or> (ending ?r1 = EOF \<and> content ?r1 \<noteq> [])"
      by (elim exE conjE)
    have "Err dis = None" "Err cap = None" using r(3,4) by simp_all
    then show ?thesis using r(1,2) by blast
  qed
  show ?thesis unfolding Let_def by (intro conjI) (rule 1, rule 2, rule m, rule 3)
qed

text \<open>
  Claim C10 as stated fails in its last sentence: for a planned range of four bytes and
  a stream that is cut after two bytes with \<open>ErrUnexpectedEOF\<close>, the short stream is an
  error in discard mode, and it is no error in capture mode, which returns a success of
  size 2 and stores the two bytes.
\<close>

theorem downloadChunk_discard_cut_stream_counterexample:
  "downloadChunk
     \<lparr>getObject = Inr \<lparr>content = [1, 2], ending = ErrUnexpectedEOF\<rparr>,
      clockStart = 5, sinceHeaders = 7, sinceBody = 9,
      maxAlloc = 281474976710656, heapFree = 1073741824\<rparr>
     \<lparr>Index = 0, RangeStart = 0, RangeEnd = 3, Size = 4\<rparr> None (Some 0) =
   Inr (\<lparr>Index_res = 0, Size_res = 0, StartTime = 5, TTFB = 7, ElapsedTotal = 0,
          Err = Some (DrainingChunkBody 0 ErrUnexpectedEOF)\<rparr>,
        None, Some 2) \<and>
   downloadChunk
     \<lparr>getObject = Inr \<lparr>content = [1, 2], ending = ErrUnexpectedEOF\<rparr>,
      clockStart = 5, sinceHeaders = 7, sinceBody = 9,
      maxAlloc = 281474976710656, heapFree = 1073741824\<rparr>
     \<lparr>Index = 0, RangeStart = 0, RangeEnd = 3, Size = 4\<rparr> (Some [[]]) (Some 0) =
   Inr (\<lparr>Index_res = 0, Size_res = 2, StartTime = 5, TTFB = 7, ElapsedTotal = 9,
          Err = None\<rparr>,
        Some [[1, 2]], Some 2)"
  by (simp add: downloadChunk_def makeBytes_def CopyDiscard_def ReadFull_def
      countingReader_def wrap64_def)
section \<open>Properties of the dispatcher\<close>

lemma downloadChunk_index:
  "downloadChunk w chunk ob pr = Inr (res, ob', pr') \<Longrightarrow> Index_res res = Index chunk"
  by (auto simp: downloadChunk_def split: sum.splits option.splits prod.splits if_splits)

lemma downloadChunk_shape:
  "downloadChunk w chunk ob pr = Inr (res, ob', pr') \<Longrightarrow>
     map_option length ob' = map_option length ob"
  by (auto simp: downloadChunk_def split: sum.splits option.splits prod.splits if_splits)

lemma downloadChunk_other_slots:
  "downloadChunk w chunk ob pr = Inr (res, ob', pr') \<Longrightarrow> j \<noteq> nat (Index chunk) \<Longrightarrow>
     slot ob' j = slot ob j"
  by (auto simp: downloadChunk_def slot_def split: sum.splits option.splits prod.splits if_splits)

lemma downloadChunk_transfer:
  assumes "downloadChunk w chunk ob pr = Inr (res, ob', pr')"
    and "map_option length ob0 = map_option length ob"
  shows "\<exists>ob0' pr0'. downloadChunk w chunk ob0 pr0 = Inr (res, ob0', pr0')"
  using assms
  by (cases ob; cases ob0)
     (auto simp: downloadChunk_def split: sum.splits option.splits prod.splits if_splits)

lemma downloadChunk_own_slot:
  assumes "downloadChunk w chunk ob pr = Inr (res, ob', pr')"
    and "downloadChunk w chunk ob0 pr0 = Inr (res0, ob0', pr0')"
    and "map_option length ob0 = map_option length ob"
    and "slot ob0 (nat (Index chunk)) = slot ob (nat (Index chunk))"
  shows "slot ob0' (nat (Index chunk)) = slot ob' (nat (Index chunk))"
  using assms
  by (cases ob; cases ob0)
     (auto simp: downloadChunk_def slot_def split: sum.splits option.splits prod.splits if_splits)

lemma downloadChunk_captured:
  assumes "downloadChunk w chunk (Some bufs) pr = Inr (res, ob', pr')" and "Err res = None"
  shows "\<exists>resp. getObject w = Inr resp \<and>
           slot ob' (nat (Index chunk)) = Some (take (nat (Size chunk)) (content resp))"
  using assms
  by (auto simp: downloadChunk_def slot_def ReadFull_def
           split: sum.splits option.splits prod.splits if_splits)

lemma fetchedInto_fetchedAs:
  "fetchedInto world outBufs progress chunk res buf \<Longrightarrow> fetchedAs world outBufs progress chunk res"
  unfolding fetchedInto_def fetchedAs_def by blast

lemma fetchedAs_index: "fetchedAs world outBufs progress chunk res \<Longrightarrow> Index_res res = Index chunk"
  unfolding fetchedAs_def using downloadChunk_index by blast

lemma fetchedInto_unique:
  "fetchedInto world outBufs progress chunk res buf \<Longrightarrow>
   fetchedInto world outBufs progress chunk res' buf' \<Longrightarrow> res' = res \<and> buf' = buf"
  unfolding fetchedInto_def by auto

lemma recordResult_Inr:
  assumes "recordResult chunk res s = Inr s'"
  shows "0 \<le> Index chunk \<and> Index chunk < int (length (results s)) \<and>
         results s' = (results s)[nat (Index chunk) := res] \<and>
         jobs s' = jobs s \<and> receiving s' = receiving s \<and> fetching s' = fetching s \<and>
         sharedBufs s' = sharedBufs s \<and> counter s' = counter s"
  using assms by (auto simp: recordResult_def split: if_splits)

lemma step_decreases: "step world e e' \<Longrightarrow> remaining e' < remaining e"
proof (induction rule: step.induct)
  case (receive s chunk rest)
  then show ?case by simp
next
  case (leave s)
  then show ?case by simp
next
  case (fetched chunk s res outBufs progress s')
  have "0 < length (fetching s)" using fetched(1) by (auto simp: length_pos_if_in_set)
  then have "length (fetching s) = Suc (length (remove1 chunk (fetching s)))"
    using fetched(1) by (simp add: length_remove1)
  moreover have "jobs s' = jobs s" using recordResult_Inr[OF fetched(3)] by simp
  ultimately show ?case by simp
next
  case (fetch_panic chunk s p)
  then show ?case by simp
next
  case (record_panic chunk s res outBufs progress p)
  then show ?case by simp
qed

lemma step_progress:
  assumes "\<not> finished e"
  shows "\<exists>e'. step world e e'"
proof (cases e)
  case (Running s)
  show ?thesis
  proof (cases "receiving s > 0")
    case True
    show ?thesis
    proof (cases "jobs s")
      case Nil
      then show ?thesis using step.leave[OF True, of world] Running by blast
    next
      case (Cons chunk rest)
      then show ?thesis using step.receive[OF True, of chunk rest world] Running by blast
    qed
  next
    case False
    then have "fetching s \<noteq> []" using assms Running by simp
    then obtain chunk where c: "chunk \<in> set (fetching s)" by (cases "fetching s") auto
    show ?thesis
    proof (cases "downloadChunk (world chunk) chunk (sharedBufs s) (counter s)")
      case (Inl p)
      then show ?thesis using step.fetch_panic[OF c] Running by blast
    next
      case (Inr triple)
      obtain res ob pr where t: "triple = (res, ob, pr)" by (cases triple) auto
      show ?thesis
      proof (cases "recordResult chunk res (s\<lparr>sharedBufs := ob, counter := pr\<rparr>)")
        case (Inl p)
        then show ?thesis using step.record_panic[OF c] Inr t Running by blast
      next
        case (Inr s')
        then show ?thesis using step.fetched[OF c] \<open>downloadChunk (world chunk) chunk (sharedBufs s) (counter s) = Inr triple\<close> t Running by blast
      qed
    qed
  qed
next
  case (Panicked p)
  then show ?thesis using assms by simp
qed

lemma steps_prepend:
  assumes "steps world e' e''" and "step world e e'"
  shows "steps world e e''"
  using assms
proof (induction rule: steps.induct)
  case (none e')
  then show ?case using steps.more[OF steps.none] by blast
next
  case (more e1 e2 e3)
  then show ?case using steps.more by blast
qed

lemma steps_complete: "\<exists>e'. steps world e e' \<and> finished e'"
proof (induction "remaining e" arbitrary: e rule: less_induct)
  case less
  show ?case
  proof (cases "finished e")
    case True
    then show ?thesis using steps.none by blast
  next
    case False
    then obtain e1 where s: "step world e e1" using step_progress by blast
    then have "remaining e1 < remaining e" by (rule step_decreases)
    then obtain e' where "steps world e1 e'" "finished e'" using less by blast
    then show ?thesis using steps_prepend[OF _ s] by blast
  qed
qed

lemma indexed_distinct:
  assumes "\<forall>i<length chunks. Index (chunks ! i) = int i"
  shows "distinct chunks"
proof -
  have "i = j" if "i < length chunks" "j < length chunks" "chunks ! i = chunks ! j" for i j
  proof -
    have "int i = Index (chunks ! i)" using assms that(1) by simp
    also have "\<dots> = int j" using assms that(2,3) by simp
    finally show ?thesis by simp
  qed
  then show ?thesis by (auto simp: distinct_conv_nth)
qed

lemma poolInv_start:
  "poolInv world chunks outBufs progress concurrency
     (startPool chunks outBufs progress concurrency)"
  unfolding poolInv_def startPool_def
  by (auto intro!: exI[of _ 0])

lemma poolInv_receive:
  assumes inv: "poolInv world chunks outBufs progress concurrency s"
    and idx: "\<forall>i<length chunks. Index (chunks ! i) = int i"
    and r: "receiving s > 0" and j: "jobs s = chunk # rest"
  shows "poolInv world chunks outBufs progress concurrency
           (s\<lparr>jobs := rest, receiving := receiving s - 1, fetching := chunk # fetching s\<rparr>)"
proof -
  from inv obtain k where k: "k \<le> length chunks" "jobs s = drop k chunks"
    "set (fetching s) \<subseteq> set (take k chunks)"
    "\<forall>i<k. chunks ! i \<notin> set (fetching s) \<longrightarrow>
       fetchedInto world outBufs progress (chunks ! i) (results s ! i) (slot (sharedBufs s) i)"
    "\<forall>i. (i < k \<longrightarrow> chunks ! i \<in> set (fetching s)) \<longrightarrow> slot (sharedBufs s) i = slot outBufs i"
    unfolding poolInv_def by blast
  have dist: "distinct chunks" using idx by (rule indexed_distinct)
  from j k(2) have klt: "k < length chunks" by (cases "k < length chunks") auto
  then have dr: "drop k chunks = chunks ! k # drop (Suc k) chunks" by (simp add: Cons_nth_drop_Suc)
  with j k(2) have ck: "chunk = chunks ! k" and rest: "rest = drop (Suc k) chunks" by simp_all
  have tk: "take (Suc k) chunks = take k chunks @ [chunk]"
    using klt ck by (simp add: take_Suc_conv_app_nth)
  have notin: "chunk \<notin> set (take k chunks)"
  proof
    assume "chunk \<in> set (take k chunks)"
    then obtain i where "i < length (take k chunks)" "take k chunks ! i = chunk"
      by (auto simp: in_set_conv_nth)
    then have "i < k" "chunks ! i = chunk" by simp_all
    then show False using dist klt ck by (simp add: distinct_conv_nth)
  qed
  then have notf: "chunk \<notin> set (fetching s)" using k(3) by blast
  have other: "chunks ! i \<noteq> chunk" if "i < k" for i
    using that dist klt ck by (auto simp: distinct_conv_nth)
  have cnt: "receiving s - 1 + length (chunk # fetching s) = receiving s + length (fetching s)"
    using r by simp
  have a: "\<forall>i<Suc k. chunks ! i \<notin> set (chunk # fetching s) \<longrightarrow>
       fetchedInto world outBufs progress (chunks ! i) (results s ! i) (slot (sharedBufs s) i)"
    using k(4) ck by (auto simp: less_Suc_eq)
  have b: "\<forall>i. (i < Suc k \<longrightarrow> chunks ! i \<in> set (chunk # fetching s)) \<longrightarrow>
       slot (sharedBufs s) i = slot outBufs i"
  proof (intro allI impI)
    fix i assume h: "i < Suc k \<longrightarrow> chunks ! i \<in> set (chunk # fetching s)"
    have "i < k \<longrightarrow> chunks ! i \<in> set (fetching s)"
    proof
      assume "i < k"
      then show "chunks ! i \<in> set (fetching s)" using h other[of i] by auto
    qed
    then show "slot (sharedBufs s) i = slot outBufs i" using k(5) by blast
  qed
  have c: "set (chunk # fetching s) \<subseteq> set (take (Suc k) chunks)"
    using k(3) tk by auto
  have ex: "\<exists>k'\<le>length chunks. rest = drop k' chunks \<and>
      set (chunk # fetching s) \<subseteq> set (take k' chunks) \<and>
      (\<forall>i<k'. chunks ! i \<notin> set (chunk # fetching s) \<longrightarrow>
         fetchedInto world outBufs progress (chunks ! i) (results s ! i) (slot (sharedBufs s) i)) \<and>
      (\<forall>i. (i < k' \<longrightarrow> chunks ! i \<in> set (chunk # fetching s)) \<longrightarrow>
         slot (sharedBufs s) i = slot outBufs i)"
    using klt rest a b c by (intro exI[of _ "Suc k"]) simp
  have full: "receiving s + length (fetching s) = nat (workerCount concurrency (length chunks))"
    using inv j unfolding poolInv_def by simp
  show ?thesis
    unfolding poolInv_def using inv notf ex cnt full
    by (simp add: poolInv_def)
qed

lemma poolInv_leave:
  assumes inv: "poolInv world chunks outBufs progress concurrency s"
    and r: "receiving s > 0" and j: "jobs s = []"
  shows "poolInv world chunks outBufs progress concurrency (s\<lparr>receiving := receiving s - 1\<rparr>)"
  using assms unfolding poolInv_def by auto

lemma poolInv_fetched:
  assumes inv: "poolInv world chunks outBufs progress concurrency s"
    and idx: "\<forall>i<length chunks. Index (chunks ! i) = int i"
    and f: "chunk \<in> set (fetching s)"
    and d: "downloadChunk (world chunk) chunk (sharedBufs s) (counter s) = Inr (res, ob, pr)"
    and rr: "recordResult chunk res (s\<lparr>sharedBufs := ob, counter := pr\<rparr>) = Inr s'"
  shows "poolInv world chunks outBufs progress concurrency
           (s'\<lparr>fetching := remove1 chunk (fetching s), receiving := receiving s + 1\<rparr>)"
proof -
  from inv obtain k where k: "k \<le> length chunks" "jobs s = drop k chunks"
    "set (fetching s) \<subseteq> set (take k chunks)"
    "\<forall>i<k. chunks ! i \<notin> set (fetching s) \<longrightarrow>
       fetchedInto world outBufs progress (chunks ! i) (results s ! i) (slot (sharedBufs s) i)"
    "\<forall>i. (i < k \<longrightarrow> chunks ! i \<in> set (fetching s)) \<longrightarrow> slot (sharedBufs s) i = slot outBufs i"
    unfolding poolInv_def by blast
  from inv have len: "length (results s) = length chunks" and df: "distinct (fetching s)"
    and le: "receiving s + length (fetching s) \<le> nat (workerCount concurrency (length chunks))"
    and full: "jobs s \<noteq> [] \<longrightarrow>
         receiving s + length (fetching s) = nat (workerCount concurrency (length chunks))"
    and shape: "map_option length (sharedBufs s) = map_option length outBufs"
    unfolding poolInv_def by simp_all
  have dist: "distinct chunks" using idx by (rule indexed_distinct)
  from recordResult_Inr[OF rr]
  have s': "results s' = (results s)[nat (Index chunk) := res]" "jobs s' = jobs s"
    "sharedBufs s' = ob"
    by simp_all
  from f k(3) have "chunk \<in> set (take k chunks)" by blast
  then obtain m where "m < length (take k chunks)" "take k chunks ! m = chunk"
    by (auto simp: in_set_conv_nth)
  then have m: "m < k" "chunks ! m = chunk" by simp_all
  have "Index (chunks ! m) = int m" using idx m(1) k(1) by simp
  then have im: "nat (Index chunk) = m" using m(2) by simp
  have rem: "set (remove1 chunk (fetching s)) = set (fetching s) - {chunk}"
    using df by simp
  have other: "chunks ! i \<noteq> chunk" if "i < k" "i \<noteq> m" for i
    using that m k(1) dist by (auto simp: distinct_conv_nth)
  have slot_m: "slot (sharedBufs s) m = slot outBufs m"
    using k(5) m f by blast
  from downloadChunk_transfer[OF d, of outBufs progress] shape
  obtain ob0 pr0 where d0: "downloadChunk (world chunk) chunk outBufs progress = Inr (res, ob0, pr0)"
    by auto
  have "slot ob0 (nat (Index chunk)) = slot ob (nat (Index chunk))"
    by (rule downloadChunk_own_slot[OF d d0]) (simp_all add: shape im slot_m[symmetric])
  then have fm: "fetchedInto world outBufs progress chunk res (slot ob m)"
    unfolding fetchedInto_def using d0 im by auto
  have keep: "slot ob i = slot (sharedBufs s) i" if "i \<noteq> m" for i
    using downloadChunk_other_slots[OF d, of i] that im by simp
  have cnt: "receiving s + 1 + length (remove1 chunk (fetching s)) =
             receiving s + length (fetching s)"
    using f by (simp add: length_remove1) (metis Suc_pred length_pos_if_in_set)
  have a: "\<forall>i<k. chunks ! i \<notin> set (remove1 chunk (fetching s)) \<longrightarrow>
       fetchedInto world outBufs progress (chunks ! i) ((results s)[m := res] ! i) (slot ob i)"
  proof (intro allI impI)
    fix i assume i: "i < k" and ni: "chunks ! i \<notin> set (remove1 chunk (fetching s))"
    show "fetchedInto world outBufs progress (chunks ! i) ((results s)[m := res] ! i) (slot ob i)"
    proof (cases "i = m")
      case True
      then show ?thesis using fm m len k(1) by simp
    next
      case False
      then have "chunks ! i \<notin> set (fetching s)" using ni rem other[OF i] by auto
      then have "fetchedInto world outBufs progress (chunks ! i) (results s ! i)
          (slot (sharedBufs s) i)"
        using k(4) i by blast
      then show ?thesis using False keep by simp
    qed
  qed
  have b: "\<forall>i. (i < k \<longrightarrow> chunks ! i \<in> set (remove1 chunk (fetching s))) \<longrightarrow>
       slot ob i = slot outBufs i"
  proof (intro allI impI)
    fix i assume h: "i < k \<longrightarrow> chunks ! i \<in> set (remove1 chunk (fetching s))"
    have nm: "i \<noteq> m" using h m rem by auto
    have "i < k \<longrightarrow> chunks ! i \<in> set (fetching s)" using h rem by auto
    then have "slot (sharedBufs s) i = slot outBufs i" using k(5) by blast
    then show "slot ob i = slot outBufs i" using keep[OF nm] by simp
  qed
  have c: "set (remove1 chunk (fetching s)) \<subseteq> set (take k chunks)"
    using k(3) rem by auto
  define t where "t = s'\<lparr>fetching := remove1 chunk (fetching s), receiving := receiving s + 1\<rparr>"
  have t: "results t = (results s)[m := res]" "jobs t = jobs s"
    "fetching t = remove1 chunk (fetching s)" "receiving t = receiving s + 1"
    "sharedBufs t = ob"
    using s' im by (simp_all add: t_def)
  have 1: "length (results t) = length chunks" using len t(1) by simp
  have 2: "distinct (fetching t)" using df t(3) by (simp add: distinct_remove1)
  have cc: "receiving t + length (fetching t) = receiving s + length (fetching s)"
    using cnt t(3,4) by simp
  have 3: "receiving t + length (fetching t) \<le> nat (workerCount concurrency (length chunks))"
    using le cc by simp
  have 4: "jobs t \<noteq> [] \<longrightarrow>
         receiving t + length (fetching t) = nat (workerCount concurrency (length chunks))"
    using full cc t(2) by simp
  have 5: "map_option length (sharedBufs t) = map_option length outBufs"
    using downloadChunk_shape[OF d] shape t(5) by simp
  have 6: "\<exists>k\<le>length chunks.
         jobs t = drop k chunks \<and>
         set (fetching t) \<subseteq> set (take k chunks) \<and>
         (\<forall>i<k. chunks ! i \<notin> set (fetching t) \<longrightarrow>
            fetchedInto world outBufs progress (chunks ! i) (results t ! i)
              (slot (sharedBufs t) i)) \<and>
         (\<forall>i. (i < k \<longrightarrow> chunks ! i \<in> set (fetching t)) \<longrightarrow>
            slot (sharedBufs t) i = slot outBufs i)"
    unfolding t using k(1,2) a b c by blast
  show ?thesis
    unfolding t_def[symmetric] poolInv_def using 1 2 3 4 5 6 by blast
qed

lemma poolInv_step:
  assumes "step world e e'" and "e = Running s" and "e' = Running s'"
    and "poolInv world chunks outBufs progress concurrency s"
    and "\<forall>i<length chunks. Index (chunks ! i) = int i"
  shows "poolInv world chunks outBufs progress concurrency s'"
  using assms
proof (induction arbitrary: s s' rule: step.induct)
  case (receive s0 chunk rest)
  then show ?case using poolInv_receive by auto
next
  case (leave s0)
  then show ?case using poolInv_leave by auto
next
  case (fetched chunk s0 res ob pr s1)
  then show ?case using poolInv_fetched by auto
qed simp_all

lemma step_from_Panicked: "step world e e' \<Longrightarrow> e = Panicked p \<Longrightarrow> False"
  by (induction rule: step.induct) simp_all

lemma poolInv_steps:
  assumes "steps world e e'" and "e = Running (startPool chunks outBufs progress concurrency)"
    and "\<forall>i<length chunks. Index (chunks ! i) = int i"
  shows "\<forall>s'. e' = Running s' \<longrightarrow> poolInv world chunks outBufs progress concurrency s'"
  using assms
proof (induction rule: steps.induct)
  case (none e)
  then show ?case using poolInv_start by auto
next
  case (more e e' e'')
  show ?case
  proof (intro allI impI)
    fix s'' assume e'': "e'' = Running s''"
    show "poolInv world chunks outBufs progress concurrency s''"
    proof (cases e')
      case (Running s')
      then have "poolInv world chunks outBufs progress concurrency s'" using more by simp
      then show ?thesis using poolInv_step[OF more(2) Running e''] more(5) by simp
    next
      case (Panicked p)
      then show ?thesis using step_from_Panicked[OF more(2)] by simp
    qed
  qed
qed

lemma step_no_panic:
  assumes st: "step world e e'" and e: "e = Running s"
    and inv: "poolInv world chunks outBufs progress concurrency s"
    and idx: "\<forall>i<length chunks. Index (chunks ! i) = int i"
    and ok: "\<forall>i<length chunks. \<exists>res. fetchedAs world outBufs progress (chunks ! i) res"
  shows "\<exists>s'. e' = Running s'"
  using st e inv
proof (induction rule: step.induct)
  case (fetch_panic chunk s0 p)
  then have s0: "s0 = s" by simp
  from inv have shape: "map_option length (sharedBufs s) = map_option length outBufs"
    and sub: "set (fetching s) \<subseteq> set chunks"
    unfolding poolInv_def using set_take_subset by fastforce+
  have "chunk \<in> set chunks" using fetch_panic(1) s0 sub by blast
  then obtain i where i: "i < length chunks" "chunks ! i = chunk"
    unfolding in_set_conv_nth by blast
  then obtain res ob0 pr0
    where "downloadChunk (world chunk) chunk outBufs progress = Inr (res, ob0, pr0)"
    using ok unfolding fetchedAs_def by blast
  from downloadChunk_transfer[OF this, of "sharedBufs s" "counter s"] shape
  have "\<exists>ob' pr'. downloadChunk (world chunk) chunk (sharedBufs s) (counter s) = Inr (res, ob', pr')"
    by simp
  then show ?case using fetch_panic(2) s0 by auto
next
  case (record_panic chunk s0 res ob pr p)
  then have s0: "s0 = s" by simp
  from inv have len: "length (results s) = length chunks"
    and sub: "set (fetching s) \<subseteq> set chunks"
    unfolding poolInv_def using set_take_subset by fastforce+
  have "chunk \<in> set chunks" using record_panic(1) s0 sub by blast
  then obtain i where i: "i < length chunks" "chunks ! i = chunk"
    unfolding in_set_conv_nth by blast
  then have "Index chunk = int i" using idx by auto
  then show ?case using record_panic(3) s0 len i(1) by (simp add: recordResult_def)
qed simp_all

lemma steps_running:
  assumes "steps world e e'" and "e = Running (startPool chunks outBufs progress concurrency)"
    and idx: "\<forall>i<length chunks. Index (chunks ! i) = int i"
    and ok: "\<forall>i<length chunks. \<exists>res. fetchedAs world outBufs progress (chunks ! i) res"
  shows "\<exists>s'. e' = Running s'"
  using assms(1,2)
proof (induction rule: steps.induct)
  case (none e)
  then show ?case by simp
next
  case (more e e' e'')
  then obtain s' where s': "e' = Running s'" by blast
  have "poolInv world chunks outBufs progress concurrency s'"
    using poolInv_steps[OF more(1) more(4) idx] s' by simp
  then show ?case using step_no_panic[OF more(2) s' _ idx ok] by simp
qed

lemma workerCount_pos:
  assumes "1 \<le> concurrency" "chunks \<noteq> []"
  shows "0 < nat (workerCount concurrency (length chunks))"
  using assms by (cases chunks) (auto simp: workerCount_def)

lemma final_table:
  assumes run: "steps world (Running (startPool chunks outBufs progress concurrency)) (Running s)"
    and fin: "receiving s = 0" "fetching s = []"
    and idx: "\<forall>i<length chunks. Index (chunks ! i) = int i"
    and conc: "1 \<le> concurrency"
  shows "length (results s) = length chunks \<and>
         (\<forall>i<length chunks.
            fetchedInto world outBufs progress (chunks ! i) (results s ! i)
              (slot (sharedBufs s) i))"
proof -
  have inv: "poolInv world chunks outBufs progress concurrency s"
    using poolInv_steps[OF run refl idx] by simp
  then obtain k where k: "k \<le> length chunks" "jobs s = drop k chunks"
    "\<forall>i<k. chunks ! i \<notin> set (fetching s) \<longrightarrow>
       fetchedInto world outBufs progress (chunks ! i) (results s ! i) (slot (sharedBufs s) i)"
    unfolding poolInv_def by blast
  have len: "length (results s) = length chunks" using inv unfolding poolInv_def by simp
  have "jobs s = []"
  proof (rule ccontr)
    assume ne: "jobs s \<noteq> []"
    then have "chunks \<noteq> []" using k(2) by auto
    then have "0 < nat (workerCount concurrency (length chunks))"
      using workerCount_pos[OF conc] by simp
    moreover have "receiving s + length (fetching s) = nat (workerCount concurrency (length chunks))"
      using inv ne unfolding poolInv_def by simp
    ultimately show False using fin by simp
  qed
  then have "k = length chunks" using k(1,2) by simp
  then show ?thesis using k(3) fin(2) len by simp
qed

lemma idle_pool_stays:
  assumes "steps world e e'" and "e = Running s" and "receiving s = 0" and "fetching s = []"
  shows "e' = Running s"
  using assms
proof (induction rule: steps.induct)
  case (none e)
  then show ?case by simp
next
  case (more e e' e'')
  then have "e' = Running s" by simp
  with more(2) more(5,6) show ?case by (auto elim: step.cases)
qed

lemma firstError_None: "firstError table = None \<longleftrightarrow> (\<forall>r\<in>set table. Err r = None)"
  by (induction table) (auto split: option.splits)

lemma firstError_least:
  assumes "m < length table" "Err (table ! m) = Some e" "\<forall>j<m. Err (table ! j) = None"
  shows "firstError table = Some e"
  using assms
proof (induction table arbitrary: m)
  case Nil
  then show ?case by simp
next
  case (Cons r rs)
  show ?case
  proof (cases m)
    case 0
    then show ?thesis using Cons.prems by simp
  next
    case (Suc m')
    have r: "Err r = None" using Cons.prems(3) Suc by auto
    have "firstError rs = Some e"
    proof (rule Cons.IH[of m'])
      show "m' < length rs" using Cons.prems(1) Suc by simp
      show "Err (rs ! m') = Some e" using Cons.prems(2) Suc by simp
      show "\<forall>j<m'. Err (rs ! j) = None"
      proof (intro allI impI)
        fix j assume "j < m'"
        then have "Suc j < m" using Suc by simp
        then have "Err ((r # rs) ! Suc j) = None" using Cons.prems(3) by blast
        then show "Err (rs ! j) = None" by simp
      qed
    qed
    then show ?thesis using r by simp
  qed
qed

lemma call_returns:
  assumes conc: "1 \<le> concurrency"
    and idx: "\<forall>i<length chunks. Index (chunks ! i) = int i"
    and ok: "\<forall>i<length chunks. \<exists>res. fetchedAs world outBufs progress (chunks ! i) res"
  shows "\<exists>returned. downloadObject world totalTime chunks outBufs progress concurrency returned"
proof -
  obtain e' where e': "steps world (Running (startPool chunks outBufs progress concurrency)) e'"
    "finished e'"
    using steps_complete by blast
  then obtain s where s: "e' = Running s" using steps_running[OF e'(1) refl idx ok] by blast
  then have "receiving s = 0" "fetching s = []" using e'(2) by simp_all
  then show ?thesis using downloadObject.returns e'(1) s by blast
qed

lemma call_outcome:
  assumes conc: "1 \<le> concurrency"
    and idx: "\<forall>i<length chunks. Index (chunks ! i) = int i"
    and len: "length table = length chunks"
    and tab: "\<forall>i<length chunks.
                fetchedInto world outBufs progress (chunks ! i) (table ! i) (left ! i)"
    and ret: "downloadObject world totalTime chunks outBufs progress concurrency
                ((result, err), outBufs', progress')"
  shows "(\<exists>ttfb. (result, err) = collect table totalTime ttfb) \<and>
         (\<forall>i<length chunks. slot outBufs' i = left ! i)"
proof -
  from ret obtain s
    where s: "steps world (Running (startPool chunks outBufs progress concurrency)) (Running s)"
      and fin: "receiving s = 0" "fetching s = []"
      and r: "(result, err) = collect (results s) totalTime (firstTTFB s)"
      and b: "outBufs' = sharedBufs s"
    by (auto elim: downloadObject.cases)
  note ft = final_table[OF s fin idx conc]
  have each: "results s ! i = table ! i \<and> slot (sharedBufs s) i = left ! i"
    if "i < length chunks" for i
    using fetchedInto_unique[of world outBufs progress "chunks ! i" "table ! i" "left ! i"
        "results s ! i" "slot (sharedBufs s) i"] tab ft that by blast
  have "results s = table"
    by (rule nth_equalityI) (use ft len each in simp_all)
  then show ?thesis using r b each by blast
qed

text \<open>
  Claim C5.  For a dispatch of \<open>N\<close> descriptors with concurrency \<open>c \<ge> 1\<close>: the number of
  workers is \<open>min(c, N)\<close>, and no more than that many fetches are ever in flight; with
  no descriptor the call returns at once, with an empty result and no error, and can
  return nothing else; and when the descriptors carry their positions as indices (as
  planned descriptors do), a call that returns without error returns a result table of
  exactly \<open>N\<close> entries, the entry at position \<open>i\<close> being the outcome of the fetch of
  descriptor \<open>i\<close> and carrying the index \<open>i\<close>.
\<close>

theorem downloadObject_result_table:
  "(1 \<le> concurrency \<longrightarrow>
      workerCount concurrency (length chunks) = min concurrency (int (length chunks)) \<and>
      receiving (startPool chunks outBufs progress concurrency) =
        nat (min concurrency (int (length chunks))) \<and>
      (\<forall>s. steps world (Running (startPool chunks outBufs progress concurrency)) (Running s) \<and>
           (\<forall>i<length chunks. Index (chunks ! i) = int i) \<longrightarrow>
           int (length (fetching s)) \<le> min concurrency (int (length chunks)))) \<and>
   (1 \<le> concurrency \<longrightarrow>
      (\<forall>returned. downloadObject world totalTime [] outBufs progress concurrency returned \<longleftrightarrow>
         returned =
           ((\<lparr>Chunks = [], TotalTime = totalTime, TTFB_first = 0\<rparr>, None), outBufs, progress))) \<and>
   (1 \<le> concurrency \<and> (\<forall>i<length chunks. Index (chunks ! i) = int i) \<and>
    downloadObject world totalTime chunks outBufs progress concurrency
      ((result, None), outBufs', progress') \<longrightarrow>
      length (Chunks result) = length chunks \<and>
      (\<forall>i<length chunks.
         fetchedAs world outBufs progress (chunks ! i) (Chunks result ! i) \<and>
         Index_res (Chunks result ! i) = int i))"
proof -
  have w: "workerCount concurrency (length chunks) = min concurrency (int (length chunks))"
    if "1 \<le> concurrency"
    using that by (simp add: workerCount_def min_def)
  have r: "receiving (startPool chunks outBufs progress concurrency) =
        nat (min concurrency (int (length chunks)))" if "1 \<le> concurrency"
    using that by (simp add: startPool_def workerCount_def min_def)
  have f: "int (length (fetching s)) \<le> min concurrency (int (length chunks))"
    if c: "1 \<le> concurrency"
      and a: "steps world (Running (startPool chunks outBufs progress concurrency)) (Running s) \<and>
           (\<forall>i<length chunks. Index (chunks ! i) = int i)" for s
  proof -
    have "poolInv world chunks outBufs progress concurrency s"
      using a poolInv_steps[of world _ "Running s"] by blast
    then have "receiving s + length (fetching s) \<le> nat (workerCount concurrency (length chunks))"
      unfolding poolInv_def by simp
    then show ?thesis using c by (simp add: workerCount_def min_def split: if_splits)
  qed
  have e: "downloadObject world totalTime [] outBufs progress concurrency returned \<longleftrightarrow>
         returned =
           ((\<lparr>Chunks = [], TotalTime = totalTime, TTFB_first = 0\<rparr>, None), outBufs, progress)"
    if c: "1 \<le> concurrency" for returned
  proof -
    let ?s0 = "startPool [] outBufs progress concurrency"
    have r0: "receiving ?s0 = 0" and f0: "fetching ?s0 = []"
      using c by (simp_all add: startPool_def workerCount_def)
    have val: "(collect (results ?s0) totalTime (firstTTFB ?s0), sharedBufs ?s0, counter ?s0) =
        ((\<lparr>Chunks = [], TotalTime = totalTime, TTFB_first = 0\<rparr>, None), outBufs, progress)"
      by (simp add: startPool_def collect_def)
    show ?thesis
    proof
      assume "downloadObject world totalTime [] outBufs progress concurrency returned"
      then obtain s where s: "steps world (Running ?s0) (Running s)"
        and ret: "returned = (collect (results s) totalTime (firstTTFB s), sharedBufs s, counter s)"
        by (auto elim: downloadObject.cases)
      have "Running s = Running ?s0" using idle_pool_stays[OF s refl r0 f0] .
      then show "returned =
             ((\<lparr>Chunks = [], TotalTime = totalTime, TTFB_first = 0\<rparr>, None), outBufs, progress)"
        using ret val by simp
    next
      assume "returned =
             ((\<lparr>Chunks = [], TotalTime = totalTime, TTFB_first = 0\<rparr>, None), outBufs, progress)"
      then show "downloadObject world totalTime [] outBufs progress concurrency returned"
        using downloadObject.returns[OF steps.none r0 f0, of world totalTime] val by simp
    qed
  qed
  have t: "length (Chunks result) = length chunks \<and>
      (\<forall>i<length chunks.
         fetchedAs world outBufs progress (chunks ! i) (Chunks result ! i) \<and>
         Index_res (Chunks result ! i) = int i)"
    if a: "1 \<le> concurrency \<and> (\<forall>i<length chunks. Index (chunks ! i) = int i) \<and>
      downloadObject world totalTime chunks outBufs progress concurrency
        ((result, None), outBufs', progress')"
  proof -
    from a obtain s
      where s: "steps world (Running (startPool chunks outBufs progress concurrency)) (Running s)"
      and fin: "receiving s = 0" "fetching s = []"
      and ret: "(result, None) = collect (results s) totalTime (firstTTFB s)"
      by (auto elim: downloadObject.cases)
    from a have c: "1 \<le> concurrency" and idx: "\<forall>i<length chunks. Index (chunks ! i) = int i"
      by simp_all
    note tab = final_table[OF s fin idx c]
    from ret have ch: "Chunks result = results s"
      by (auto simp: collect_def split: option.splits)
    have "fetchedAs world outBufs progress (chunks ! i) (Chunks result ! i) \<and>
         Index_res (Chunks result ! i) = int i" if "i < length chunks" for i
    proof -
      have fa: "fetchedAs world outBufs progress (chunks ! i) (Chunks result ! i)"
        using tab ch that fetchedInto_fetchedAs by fastforce
      then have "Index_res (Chunks result ! i) = Index (chunks ! i)" by (rule fetchedAs_index)
      then show ?thesis using fa idx that by simp
    qed
    then show ?thesis using tab ch by simp
  qed
  show ?thesis using w r f e t by blast
qed

text \<open>
  Claim C3, as amended.  Take a dispatch with concurrency at least 1 on descriptors
  that carry their positions as indices, and let \<open>table ! i\<close> be the outcome of the
  fetch of descriptor \<open>i\<close> and \<open>left ! i\<close> the buffer that this fetch leaves in slot
  \<open>i\<close> of the output buffers (no fetch panics).  Then:
  \<^item> the call returns: a schedule that returns exists, no schedule ends in a panic or
    gets stuck before \<^verbatim>\<open>wg.Wait()\<close> returns, and every step of every schedule
    decreases the bound \<open>remaining\<close>, so that no schedule runs forever;
  \<^item> whatever the schedule, if at least one outcome carries an error, the call
    returns the error of the outcome with the smallest index, together with the empty
    \<open>DownloadResult\<close>, and the main loop ends the program instead of producing a
    \<open>RunSummary\<close>; if no outcome carries an error, it returns the whole table and no
    error;
  \<^item> in both cases the output buffers of the caller hold, in slot \<open>i\<close>, what the
    fetch of descriptor \<open>i\<close> left there: in capture mode the bytes read by every
    successful fetch stay in the caller's buffers also when the dispatch fails.
\<close>

theorem downloadObject_fail_fast:
  assumes "1 \<le> concurrency"
    and "\<forall>i<length chunks. Index (chunks ! i) = int i"
    and "length table = length chunks"
    and "\<forall>i<length chunks.
           fetchedInto world outBufs progress (chunks ! i) (table ! i) (left ! i)"
  shows "(\<exists>returned. downloadObject world totalTime chunks outBufs progress concurrency returned) \<and>
         (\<forall>e. steps world (Running (startPool chunks outBufs progress concurrency)) e \<longrightarrow>
            (\<exists>s. e = Running s) \<and>
            (\<not> finished e \<longrightarrow> (\<exists>e'. step world e e')) \<and>
            (\<forall>e'. step world e e' \<longrightarrow> remaining e' < remaining e)) \<and>
         (\<forall>result err outBufs' progress'.
            downloadObject world totalTime chunks outBufs progress concurrency
              ((result, err), outBufs', progress') \<longrightarrow>
            (\<forall>i<length chunks. slot outBufs' i = left ! i) \<and>
            (\<forall>i<length chunks. outBufs \<noteq> None \<and> Err (table ! i) = None \<longrightarrow>
               (\<exists>resp. getObject (world (chunks ! i)) = Inr resp \<and>
                  slot outBufs' i =
                    Some (take (nat (Size (chunks ! i))) (content resp)))) \<and>
            ((\<exists>i<length chunks. Err (table ! i) \<noteq> None) \<longrightarrow>
               (\<exists>m<length chunks. \<exists>e.
                  Err (table ! m) = Some e \<and> (\<forall>j<m. Err (table ! j) = None) \<and>
                  err = Some e \<and> result = zeroDownloadResult \<and>
                  (\<forall>cfg objectSize run.
                     summarizeRun cfg objectSize run concurrency (result, err) =
                       Inl (RunFailed concurrency run e)))) \<and>
            ((\<forall>i<length chunks. Err (table ! i) = None) \<longrightarrow>
               err = None \<and> Chunks result = table \<and> TotalTime result = totalTime))"
proof -
  note conc = assms(1) and idx = assms(2) and len = assms(3) and tab = assms(4)
  have ok: "\<forall>i<length chunks. \<exists>res. fetchedAs world outBufs progress (chunks ! i) res"
    using tab fetchedInto_fetchedAs by blast
  have returns: "\<exists>returned.
      downloadObject world totalTime chunks outBufs progress concurrency returned"
    using call_returns[OF conc idx ok] .
  have schedules: "(\<exists>s. e = Running s) \<and>
            (\<not> finished e \<longrightarrow> (\<exists>e'. step world e e')) \<and>
            (\<forall>e'. step world e e' \<longrightarrow> remaining e' < remaining e)"
    if "steps world (Running (startPool chunks outBufs progress concurrency)) e" for e
    using steps_running[OF that refl idx ok] step_progress step_decreases by blast
  have outcome: "(\<forall>i<length chunks. slot outBufs' i = left ! i) \<and>
            (\<forall>i<length chunks. outBufs \<noteq> None \<and> Err (table ! i) = None \<longrightarrow>
               (\<exists>resp. getObject (world (chunks ! i)) = Inr resp \<and>
                  slot outBufs' i =
                    Some (take (nat (Size (chunks ! i))) (content resp)))) \<and>
            ((\<exists>i<length chunks. Err (table ! i) \<noteq> None) \<longrightarrow>
               (\<exists>m<length chunks. \<exists>e.
                  Err (table ! m) = Some e \<and> (\<forall>j<m. Err (table ! j) = None) \<and>
                  err = Some e \<and> result = zeroDownloadResult \<and>
                  (\<forall>cfg objectSize run.
                     summarizeRun cfg objectSize run concurrency (result, err) =
                       Inl (RunFailed concurrency run e)))) \<and>
            ((\<forall>i<length chunks. Err (table ! i) = None) \<longrightarrow>
               err = None \<and> Chunks result = table \<and> TotalTime result = totalTime)"
    if ret: "downloadObject world totalTime chunks outBufs progress concurrency
              ((result, err), outBufs', progress')"
    for result err outBufs' progress'
  proof -
    from call_outcome[OF conc idx len tab ret]
    obtain ttfb where r: "(result, err) = collect table totalTime ttfb"
      and slots: "\<forall>i<length chunks. slot outBufs' i = left ! i"
      by blast
    have captured: "\<exists>resp. getObject (world (chunks ! i)) = Inr resp \<and>
                  slot outBufs' i = Some (take (nat (Size (chunks ! i))) (content resp))"
      if i: "i < length chunks" and c: "outBufs \<noteq> None \<and> Err (table ! i) = None" for i
    proof -
      from c obtain bufs where bufs: "outBufs = Some bufs" by auto
      from tab i obtain ob' pr'
        where d: "downloadChunk (world (chunks ! i)) (chunks ! i) (Some bufs) progress =
                    Inr (table ! i, ob', pr')"
          and l: "slot ob' (nat (Index (chunks ! i))) = left ! i"
        unfolding fetchedInto_def bufs by blast
      have e: "Err (table ! i) = None" using c by simp
      from downloadChunk_captured[OF d e]
      obtain resp where "getObject (world (chunks ! i)) = Inr resp"
        "slot ob' (nat (Index (chunks ! i))) = Some (take (nat (Size (chunks ! i))) (content resp))"
        by (elim exE conjE)
      then show ?thesis using l slots i by auto
    qed
    have failing: "\<exists>m<length chunks. \<exists>e.
                 Err (table ! m) = Some e \<and> (\<forall>j<m. Err (table ! j) = None) \<and>
                 err = Some e \<and> result = zeroDownloadResult \<and>
                 (\<forall>cfg objectSize run.
                    summarizeRun cfg objectSize run concurrency (result, err) =
                      Inl (RunFailed concurrency run e))"
      if ex: "\<exists>i<length chunks. Err (table ! i) \<noteq> None"
    proof -
      define m where "m = (LEAST i. i < length chunks \<and> Err (table ! i) \<noteq> None)"
      from ex obtain i where i: "i < length chunks \<and> Err (table ! i) \<noteq> None" by blast
      have mP: "m < length chunks \<and> Err (table ! m) \<noteq> None"
        unfolding m_def using i by (rule LeastI)
      then obtain e where e: "Err (table ! m) = Some e" by auto
      have before: "\<forall>j<m. Err (table ! j) = None"
      proof (intro allI impI)
        fix j assume j: "j < m"
        then have "\<not> (j < length chunks \<and> Err (table ! j) \<noteq> None)"
          unfolding m_def by (rule not_less_Least)
        moreover have "j < length chunks" using j mP by simp
        ultimately show "Err (table ! j) = None" by simp
      qed
      have "firstError table = Some e"
        using firstError_least[of m table e] mP e before len by simp
      then have re: "result = zeroDownloadResult" "err = Some e"
        using r by (simp_all add: collect_def)
      then have "\<forall>cfg objectSize run.
                    summarizeRun cfg objectSize run concurrency (result, err) =
                      Inl (RunFailed concurrency run e)"
        by (simp add: summarizeRun_def)
      then show ?thesis using mP e before re by blast
    qed
    have succeeding: "err = None \<and> Chunks result = table \<and> TotalTime result = totalTime"
      if all: "\<forall>i<length chunks. Err (table ! i) = None"
    proof -
      have "\<forall>r\<in>set table. Err r = None"
        using all len by (auto simp: in_set_conv_nth)
      then have "firstError table = None" by (simp add: firstError_None)
      then show ?thesis using r by (simp add: collect_def)
    qed
    show ?thesis using slots captured failing succeeding by blast
  qed
  show ?thesis using returns schedules outcome by blast
qed

text \<open>
  A run of two workers on two chunks in which the fetch of the second chunk completes
  before the fetch of the first.
\<close>

lemma two_chunk_run:
  assumes conc: "2 \<le> concurrency"
    and ia: "Index a = 0" and ib: "Index b = 1"
    and db: "downloadChunk (world b) b outBufs progress = Inr (rb, ob1, pr1)"
    and da: "downloadChunk (world a) a ob1 pr1 = Inr (ra, ob2, pr2)"
  shows "downloadObject world totalTime [a, b] outBufs progress concurrency
           (collect [ra, rb] totalTime
              (if Err rb = None then TTFB rb else if Err ra = None then TTFB ra else 0),
            ob2, pr2)"
proof -
  define z where "z = zeroChunkResult"
  define s0 where "s0 = \<lparr>jobs = [a, b], receiving = 2, fetching = [], results = [z, z],
      firstTTFB = 0, ttfbSet = False, sharedBufs = outBufs, counter = progress\<rparr>"
  define s1 where "s1 = \<lparr>jobs = [b], receiving = 1, fetching = [a], results = [z, z],
      firstTTFB = 0, ttfbSet = False, sharedBufs = outBufs, counter = progress\<rparr>"
  define s2 where "s2 = \<lparr>jobs = [], receiving = 0, fetching = [b, a], results = [z, z],
      firstTTFB = 0, ttfbSet = False, sharedBufs = outBufs, counter = progress\<rparr>"
  define t1 where "t1 = (if Err rb = None then TTFB rb else 0)"
  define s3 where "s3 = \<lparr>jobs = [], receiving = 1, fetching = [a], results = [z, rb],
      firstTTFB = t1, ttfbSet = (Err rb = None), sharedBufs = ob1, counter = pr1\<rparr>"
  define t2 where "t2 = (if Err rb = None then TTFB rb else if Err ra = None then TTFB ra else 0)"
  define s4 where "s4 = \<lparr>jobs = [], receiving = 2, fetching = [], results = [ra, rb],
      firstTTFB = t2, ttfbSet = (Err rb = None \<or> Err ra = None), sharedBufs = ob2, counter = pr2\<rparr>"
  define s5 where "s5 = \<lparr>jobs = [], receiving = 1, fetching = [], results = [ra, rb],
      firstTTFB = t2, ttfbSet = (Err rb = None \<or> Err ra = None), sharedBufs = ob2, counter = pr2\<rparr>"
  define s6 where "s6 = \<lparr>jobs = [], receiving = 0, fetching = [], results = [ra, rb],
      firstTTFB = t2, ttfbSet = (Err rb = None \<or> Err ra = None), sharedBufs = ob2, counter = pr2\<rparr>"
  have ab: "a \<noteq> b" using ia ib by auto
  have start: "startPool [a, b] outBufs progress concurrency = s0"
    using conc by (simp add: startPool_def workerCount_def s0_def z_def)
  have "step world (Running s0)
          (Running (s0\<lparr>jobs := [b], receiving := receiving s0 - 1, fetching := a # fetching s0\<rparr>))"
    by (rule step.receive) (simp_all add: s0_def)
  then have 1: "step world (Running s0) (Running s1)" by (simp add: s0_def s1_def)
  have "step world (Running s1)
          (Running (s1\<lparr>jobs := [], receiving := receiving s1 - 1, fetching := b # fetching s1\<rparr>))"
    by (rule step.receive) (simp_all add: s1_def)
  then have 2: "step world (Running s1) (Running s2)" by (simp add: s1_def s2_def)
  have rb: "recordResult b rb (s2\<lparr>sharedBufs := ob1, counter := pr1\<rparr>) =
      Inr \<lparr>jobs = [], receiving = 0, fetching = [b, a], results = [z, rb],
          firstTTFB = t1, ttfbSet = (Err rb = None), sharedBufs = ob1, counter = pr1\<rparr>"
    by (simp add: recordResult_def s2_def ib t1_def)
  have "step world (Running s2)
          (Running (\<lparr>jobs = [], receiving = 0, fetching = [b, a], results = [z, rb],
             firstTTFB = t1, ttfbSet = (Err rb = None), sharedBufs = ob1, counter = pr1\<rparr>
             \<lparr>fetching := remove1 b (fetching s2), receiving := receiving s2 + 1\<rparr>))"
  proof (rule step.fetched)
    show "b \<in> set (fetching s2)" by (simp add: s2_def)
    show "downloadChunk (world b) b (sharedBufs s2) (counter s2) = Inr (rb, ob1, pr1)"
      using db by (simp add: s2_def)
    show "recordResult b rb (s2\<lparr>sharedBufs := ob1, counter := pr1\<rparr>) =
      Inr \<lparr>jobs = [], receiving = 0, fetching = [b, a], results = [z, rb],
          firstTTFB = t1, ttfbSet = (Err rb = None), sharedBufs = ob1, counter = pr1\<rparr>"
      by (rule rb)
  qed
  then have 3: "step world (Running s2) (Running s3)" by (simp add: s2_def s3_def)
  have ra: "recordResult a ra (s3\<lparr>sharedBufs := ob2, counter := pr2\<rparr>) =
      Inr \<lparr>jobs = [], receiving = 1, fetching = [a], results = [ra, rb],
          firstTTFB = t2, ttfbSet = (Err rb = None \<or> Err ra = None),
          sharedBufs = ob2, counter = pr2\<rparr>"
    by (auto simp: recordResult_def s3_def ia t1_def t2_def)
  have "step world (Running s3)
          (Running (\<lparr>jobs = [], receiving = 1, fetching = [a], results = [ra, rb],
             firstTTFB = t2, ttfbSet = (Err rb = None \<or> Err ra = None),
             sharedBufs = ob2, counter = pr2\<rparr>
             \<lparr>fetching := remove1 a (fetching s3), receiving := receiving s3 + 1\<rparr>))"
  proof (rule step.fetched)
    show "a \<in> set (fetching s3)" by (simp add: s3_def)
    show "downloadChunk (world a) a (sharedBufs s3) (counter s3) = Inr (ra, ob2, pr2)"
      using da by (simp add: s3_def)
    show "recordResult a ra (s3\<lparr>sharedBufs := ob2, counter := pr2\<rparr>) =
      Inr \<lparr>jobs = [], receiving = 1, fetching = [a], results = [ra, rb],
          firstTTFB = t2, ttfbSet = (Err rb = None \<or> Err ra = None),
          sharedBufs = ob2, counter = pr2\<rparr>"
      by (rule ra)
  qed
  then have 4: "step world (Running s3) (Running s4)" by (simp add: s3_def s4_def numeral_2_eq_2)
  have "step world (Running s4) (Running (s4\<lparr>receiving := receiving s4 - 1\<rparr>))"
    by (rule step.leave) (simp_all add: s4_def)
  then have 5: "step world (Running s4) (Running s5)" by (simp add: s4_def s5_def numeral_2_eq_2)
  have "step world (Running s5) (Running (s5\<lparr>receiving := receiving s5 - 1\<rparr>))"
    by (rule step.leave) (simp_all add: s5_def)
  then have 6: "step world (Running s5) (Running s6)" by (simp add: s5_def s6_def)
  note c1 = steps.more[OF steps.none 1]
  note c2 = steps.more[OF c1 2]
  note c3 = steps.more[OF c2 3]
  note c4 = steps.more[OF c3 4]
  note c5 = steps.more[OF c4 5]
  have "steps world (Running s0) (Running s6)"
    by (rule steps.more[OF c5 6])
  then have "steps world (Running (startPool [a, b] outBufs progress concurrency)) (Running s6)"
    by (simp add: start)
  moreover have "receiving s6 = 0" "fetching s6 = []" by (simp_all add: s6_def)
  ultimately have "downloadObject world totalTime [a, b] outBufs progress concurrency
      (collect (results s6) totalTime (firstTTFB s6), sharedBufs s6, counter s6)"
    by (rule downloadObject.returns)
  then show ?thesis by (simp add: s6_def t2_def)
qed

text \<open>
  The hypotheses of C5 hold for the two planned descriptors of an object of five bytes
  in chunks of three, fetched in discard mode with concurrency 100 by a world that
  serves every range in full: two workers run, the second fetch completes first, and
  the call returns the table of both outcomes in index order.
\<close>

theorem downloadObject_result_table_witness:
  "let a = \<lparr>Index = 0, RangeStart = 0, RangeEnd = 2, Size = 3\<rparr>;
       b = \<lparr>Index = 1, RangeStart = 3, RangeEnd = 4, Size = 2\<rparr>;
       world = (\<lambda>c. \<lparr>getObject = Inr \<lparr>content = replicate (nat (Size c)) 7, ending = EOF\<rparr>,
                        clockStart = 10, sinceHeaders = 1, sinceBody = 2,
                        maxAlloc = 281474976710656, heapFree = 1073741824\<rparr>);
       result = \<lparr>Chunks =
                   [\<lparr>Index_res = 0, Size_res = 3, StartTime = 10, TTFB = 1, ElapsedTotal = 2,
                      Err = None\<rparr>,
                    \<lparr>Index_res = 1, Size_res = 2, StartTime = 10, TTFB = 1, ElapsedTotal = 2,
                      Err = None\<rparr>],
                 TotalTime = 50, TTFB_first = 1\<rparr>
   in (1::int) \<le> 100 \<and>
      (\<forall>i<length [a, b]. Index ([a, b] ! i) = int i) \<and>
      downloadObject world 50 [a, b] None (Some 0) 100 ((result, None), None, Some 5) \<and>
      workerCount 100 (length [a, b]) = 2 \<and>
      length (Chunks result) = length [a, b] \<and>
      (\<forall>i<length [a, b].
         fetchedAs world None (Some 0) ([a, b] ! i) (Chunks result ! i) \<and>
         Index_res (Chunks result ! i) = int i)"
proof -
  let ?a = "\<lparr>Index = 0, RangeStart = 0, RangeEnd = 2, Size = 3\<rparr>"
  let ?b = "\<lparr>Index = 1, RangeStart = 3, RangeEnd = 4, Size = 2\<rparr>"
  let ?world = "\<lambda>c. \<lparr>getObject = Inr \<lparr>content = replicate (nat (Size c)) (7 :: byte), ending = EOF\<rparr>,
                        clockStart = 10, sinceHeaders = 1, sinceBody = 2,
                        maxAlloc = 281474976710656, heapFree = 1073741824\<rparr>"
  let ?ra = "\<lparr>Index_res = 0, Size_res = 3, StartTime = 10, TTFB = 1, ElapsedTotal = 2,
                      Err = None\<rparr>"
  let ?rb = "\<lparr>Index_res = 1, Size_res = 2, StartTime = 10, TTFB = 1, ElapsedTotal = 2,
                      Err = None\<rparr>"
  let ?result = "\<lparr>Chunks = [?ra, ?rb], TotalTime = 50, TTFB_first = 1\<rparr>"
  have c: "(1::int) \<le> 100" by simp
  have idx: "\<forall>i<length [?a, ?b]. Index ([?a, ?b] ! i) = int i"
    by (simp add: less_Suc_eq nth_Cons')
  have db: "downloadChunk (?world ?b) ?b None (Some 0) = Inr (?rb, None, Some 2)"
    by (simp add: downloadChunk_def CopyDiscard_def countingReader_def wrap64_def)
  have da: "downloadChunk (?world ?a) ?a None (Some 2) = Inr (?ra, None, Some 5)"
    by (simp add: downloadChunk_def CopyDiscard_def countingReader_def wrap64_def)
  have "downloadObject ?world 50 [?a, ?b] None (Some 0) 100
          (collect [?ra, ?rb] 50
             (if Err ?rb = None then TTFB ?rb else if Err ?ra = None then TTFB ?ra else 0),
           None, Some 5)"
    by (rule two_chunk_run[OF _ _ _ db da]) simp_all
  then have run: "downloadObject ?world 50 [?a, ?b] None (Some 0) 100
      ((?result, None), None, Some 5)"
    by (simp add: collect_def)
  note inst = downloadObject_result_table
    [of 100 "[?a, ?b]" None "Some 0" ?world 50 ?result None "Some 5"]
  have w: "workerCount 100 (length [?a, ?b]) = 2"
    using inst c by simp
  have t: "length (Chunks ?result) = length [?a, ?b] \<and>
      (\<forall>i<length [?a, ?b].
         fetchedAs ?world None (Some 0) ([?a, ?b] ! i) (Chunks ?result ! i) \<and>
         Index_res (Chunks ?result ! i) = int i)"
    using inst c idx run by blast
  show ?thesis
    unfolding Let_def using c idx run w t by blast
qed

text \<open>
  The hypotheses of C3 hold for three descriptors fetched in capture mode with
  concurrency 2, by a world that serves the first range in full and fails the requests
  for the second and the third: the call returns, every return carries the error of
  descriptor 1 and the empty result, the main loop ends the program, and the three
  bytes of descriptor 0 are in the caller's buffers.
\<close>

theorem downloadObject_fail_fast_witness:
  "let a = \<lparr>Index = 0, RangeStart = 0, RangeEnd = 2, Size = 3\<rparr>;
       b = \<lparr>Index = 1, RangeStart = 3, RangeEnd = 5, Size = 3\<rparr>;
       c = \<lparr>Index = 2, RangeStart = 6, RangeEnd = 6, Size = 1\<rparr>;
       world = (\<lambda>ch. \<lparr>getObject =
                          (if Index ch = 0 then Inr \<lparr>content = [7, 7, 7], ending = EOF\<rparr>
                           else Inl (Transport (if Index ch = 1 then ''timeout'' else ''reset''))),
                        clockStart = 10, sinceHeaders = 1, sinceBody = 2,
                        maxAlloc = 281474976710656, heapFree = 1073741824\<rparr>);
       eb = GetObjectChunk 1 3 5 (Transport ''timeout'');
       table =
         [\<lparr>Index_res = 0, Size_res = 3, StartTime = 10, TTFB = 1, ElapsedTotal = 2, Err = None\<rparr>,
          \<lparr>Index_res = 1, Size_res = 0, StartTime = 10, TTFB = 0, ElapsedTotal = 0,
            Err = Some eb\<rparr>,
          \<lparr>Index_res = 2, Size_res = 0, StartTime = 10, TTFB = 0, ElapsedTotal = 0,
            Err = Some (GetObjectChunk 2 6 6 (Transport ''reset''))\<rparr>];
       left = [Some [7, 7, 7], Some [], Some []];
       outBufs = Some [[], [], []]
   in (1::int) \<le> 2 \<and>
      (\<forall>i<length [a, b, c]. Index ([a, b, c] ! i) = int i) \<and>
      length table = length [a, b, c] \<and>
      (\<forall>i<length [a, b, c].
         fetchedInto world outBufs (Some 0) ([a, b, c] ! i) (table ! i) (left ! i)) \<and>
      (\<exists>result err outBufs' progress'.
         downloadObject world 50 [a, b, c] outBufs (Some 0) 2
           ((result, err), outBufs', progress') \<and>
         err = Some eb \<and> result = zeroDownloadResult \<and>
         slot outBufs' 0 = Some [7, 7, 7] \<and>
         (\<forall>cfg objectSize run.
            summarizeRun cfg objectSize run 2 (result, err) = Inl (RunFailed 2 run eb)))"
proof -
  let ?a = "\<lparr>Index = 0, RangeStart = 0, RangeEnd = 2, Size = 3\<rparr>"
  let ?b = "\<lparr>Index = 1, RangeStart = 3, RangeEnd = 5, Size = 3\<rparr>"
  let ?c = "\<lparr>Index = 2, RangeStart = 6, RangeEnd = 6, Size = 1\<rparr>"
  let ?world = "\<lambda>ch. \<lparr>getObject =
                          (if Index ch = 0 then Inr \<lparr>content = [7, 7, 7 :: byte], ending = EOF\<rparr>
                           else Inl (Transport (if Index ch = 1 then ''timeout'' else ''reset''))),
                        clockStart = 10, sinceHeaders = 1, sinceBody = 2,
                        maxAlloc = 281474976710656, heapFree = 1073741824\<rparr>"
  let ?eb = "GetObjectChunk 1 3 5 (Transport ''timeout'')"
  let ?ra = "\<lparr>Index_res = 0, Size_res = 3, StartTime = 10, TTFB = 1, ElapsedTotal = 2,
               Err = None\<rparr>"
  let ?rb = "\<lparr>Index_res = 1, Size_res = 0, StartTime = 10, TTFB = 0, ElapsedTotal = 0,
               Err = Some ?eb\<rparr>"
  let ?rc = "\<lparr>Index_res = 2, Size_res = 0, StartTime = 10, TTFB = 0, ElapsedTotal = 0,
               Err = Some (GetObjectChunk 2 6 6 (Transport ''reset''))\<rparr>"
  let ?table = "[?ra, ?rb, ?rc]"
  let ?left = "[Some [7, 7, 7 :: byte], Some [], Some []]"
  let ?ob = "Some [[], [], [] :: byte list]"
  let ?chunks = "[?a, ?b, ?c]"
  have conc: "(1::int) \<le> 2" by simp
  have idx: "\<forall>i<length ?chunks. Index (?chunks ! i) = int i"
    by (simp add: less_Suc_eq nth_Cons')
  have len: "length ?table = length ?chunks" by simp
  have fa: "fetchedInto ?world ?ob (Some 0) ?a ?ra (Some [7, 7, 7])"
    unfolding fetchedInto_def
    by (simp add: downloadChunk_def makeBytes_def ReadFull_def slot_def)
  have fb: "fetchedInto ?world ?ob (Some 0) ?b ?rb (Some [])"
    unfolding fetchedInto_def by (simp add: downloadChunk_def slot_def)
  have fc: "fetchedInto ?world ?ob (Some 0) ?c ?rc (Some [])"
    unfolding fetchedInto_def by (simp add: downloadChunk_def slot_def)
  have tab: "\<forall>i<length ?chunks.
      fetchedInto ?world ?ob (Some 0) (?chunks ! i) (?table ! i) (?left ! i)"
    using fa fb fc by (simp add: less_Suc_eq nth_Cons' numeral_3_eq_3)
  note inst = downloadObject_fail_fast[OF conc idx len tab, of 50]
  from inst obtain returned
    where "downloadObject ?world 50 ?chunks ?ob (Some 0) 2 returned" by blast
  then obtain result err outBufs' progress'
    where ret: "downloadObject ?world 50 ?chunks ?ob (Some 0) 2
                  ((result, err), outBufs', progress')"
    by (cases returned) auto
  from inst ret
  have slots: "\<forall>i<length ?chunks. slot outBufs' i = ?left ! i"
    and failing: "(\<exists>i<length ?chunks. Err (?table ! i) \<noteq> None) \<longrightarrow>
       (\<exists>m<length ?chunks. \<exists>e.
          Err (?table ! m) = Some e \<and> (\<forall>j<m. Err (?table ! j) = None) \<and>
          err = Some e \<and> result = zeroDownloadResult \<and>
          (\<forall>cfg objectSize run.
             summarizeRun cfg objectSize run 2 (result, err) = Inl (RunFailed 2 run e)))"
    by blast+
  have "\<exists>i<length ?chunks. Err (?table ! i) \<noteq> None"
    by (rule exI[of _ 1]) simp
  with failing obtain m e
    where m: "m < length ?chunks" "Err (?table ! m) = Some e" "\<forall>j<m. Err (?table ! j) = None"
      and r: "err = Some e" "result = zeroDownloadResult"
        "\<forall>cfg objectSize run.
           summarizeRun cfg objectSize run 2 (result, err) = Inl (RunFailed 2 run e)"
    by blast
  have "m = 0 \<or> m = 1 \<or> m = 2" using m(1) by auto
  then have e: "e = ?eb"
  proof (elim disjE)
    assume "m = 0"
    then show ?thesis using m(2) by simp
  next
    assume "m = 1"
    then show ?thesis using m(2) by simp
  next
    assume "m = 2"
    then have "(1::nat) < m" by simp
    then have "Err (?table ! 1) = None" using m(3) by blast
    then show ?thesis by simp
  qed
  have s0: "slot outBufs' 0 = Some [7, 7, 7]" using slots by simp
  have "\<exists>result err outBufs' progress'.
         downloadObject ?world 50 ?chunks ?ob (Some 0) 2 ((result, err), outBufs', progress') \<and>
         err = Some ?eb \<and> result = zeroDownloadResult \<and>
         slot outBufs' 0 = Some [7, 7, 7] \<and>
         (\<forall>cfg objectSize run.
            summarizeRun cfg objectSize run 2 (result, err) = Inl (RunFailed 2 run ?eb))"
    using ret r e s0 by blast
  then show ?thesis
    unfolding Let_def using conc idx len tab by blast
qed

text \<open>
  Claim C3 as stated fails where it says that no data of a successful chunk is
  surfaced: for two descriptors fetched in capture mode, of which the first is served
  in full and the second request fails, the call returns the error of descriptor 1 and
  the empty result, and the three bytes of descriptor 0 are in the output buffers of
  the caller.
\<close>

theorem downloadObject_failed_dispatch_buffers_counterexample:
  "downloadObject
     (\<lambda>ch. \<lparr>getObject =
               (if Index ch = 0 then Inr \<lparr>content = [7, 7, 7], ending = EOF\<rparr>
                else Inl (Transport ''timeout'')),
             clockStart = 10, sinceHeaders = 1, sinceBody = 2,
             maxAlloc = 281474976710656, heapFree = 1073741824\<rparr>)
     50
     [\<lparr>Index = 0, RangeStart = 0, RangeEnd = 2, Size = 3\<rparr>,
      \<lparr>Index = 1, RangeStart = 3, RangeEnd = 5, Size = 3\<rparr>]
     (Some [[], []]) (Some 0) 2
     ((zeroDownloadResult, Some (GetObjectChunk 1 3 5 (Transport ''timeout''))),
      Some [[7, 7, 7], []], Some 3)"
proof -
  let ?a = "\<lparr>Index = 0, RangeStart = 0, RangeEnd = 2, Size = 3\<rparr>"
  let ?b = "\<lparr>Index = 1, RangeStart = 3, RangeEnd = 5, Size = 3\<rparr>"
  let ?world = "\<lambda>ch. \<lparr>getObject =
               (if Index ch = 0 then Inr \<lparr>content = [7, 7, 7 :: byte], ending = EOF\<rparr>
                else Inl (Transport ''timeout'')),
             clockStart = 10, sinceHeaders = 1, sinceBody = 2,
             maxAlloc = 281474976710656, heapFree = 1073741824\<rparr>"
  let ?ra = "\<lparr>Index_res = 0, Size_res = 3, StartTime = 10, TTFB = 1, ElapsedTotal = 2,
               Err = None\<rparr>"
  let ?rb = "\<lparr>Index_res = 1, Size_res = 0, StartTime = 10, TTFB = 0, ElapsedTotal = 0,
               Err = Some (GetObjectChunk 1 3 5 (Transport ''timeout''))\<rparr>"
  have db: "downloadChunk (?world ?b) ?b (Some [[], []]) (Some 0) =
      Inr (?rb, Some [[], []], Some 0)"
    by (simp add: downloadChunk_def)
  have da: "downloadChunk (?world ?a) ?a (Some [[], []]) (Some 0) =
      Inr (?ra, Some [[7, 7, 7], []], Some 3)"
    by (simp add: downloadChunk_def makeBytes_def ReadFull_def countingReader_def wrap64_def)
  have "downloadObject ?world 50 [?a, ?b] (Some [[], []]) (Some 0) 2
          (collect [?ra, ?rb] 50
             (if Err ?rb = None then TTFB ?rb else if Err ?ra = None then TTFB ?ra else 0),
           Some [[7, 7, 7], []], Some 3)"
    by (rule two_chunk_run[OF _ _ _ db da]) simp_all
  then show ?thesis by (simp add: collect_def)
qed

end
